theory Spec2Isabelle
  imports Complex_Main
begin

section \<open>Values, rows and exceptions\<close>

text \<open>
  The migration script (migtate.py) reads rows of five MySQL tables as dictionaries
  (\<open>cursor(dictionary=True)\<close>), builds tuples of Python values and writes them to
  PostgreSQL. A Python value that can stand in a source row or in a target tuple:
  \<open>None\<close>, a bool, an int, an exact numeric value (\<open>Decimal\<close> or a float, by the
  number it denotes), a string, a date read from the source, or the result of
  \<open>datetime.now()\<close>.
\<close>

datatype pyval =
    PNone
  | PBool bool
  | PInt int
  | PDec rat
  | PStr string
  | PDate nat
  | PNow

type_synonym row = "string \<rightharpoonup> pyval"

type_synonym tuple = "pyval list"

text \<open>The five transfers, named by their target table.\<close>

datatype tbl = Employees | Customers | Products | Invoices | InvoiceItems

text \<open>
  Every call the script makes into a library that can raise: the two connects, the
  cursor calls of a transfer, the statements on the target store, the two closes.
  A trigger toggle carries the position of the trigger in the fetched list and its name;
  a bulk insert carries the rows it is given.
\<close>

datatype call =
    MysqlConnect
  | PgConnect
  | MysqlCursor tbl
  | MysqlExecute tbl
  | MysqlFetchall tbl
  | PgCursor tbl
  | SetConstraintsDeferred
  | SelectTriggers
  | FetchTriggers
  | DisableTrigger nat string
  | EnableTrigger nat string
  | ExecuteValues tbl "tuple list"
  | PgCommit tbl
  | MysqlCursorClose tbl
  | PgRollback tbl
  | MysqlClose
  | PgClose

datatype error =
    KeyError string
  | TypeError
  | ValueError
  | AttributeError
  | StoreError call
  | SystemExit nat

text \<open>The lines the script prints.\<close>

datatype line =
    ConnectOk
  | ConnectError error
  | Rule
  | StartBanner
  | Migrating tbl
  | Migrated tbl nat
  | MigrateError tbl error
  | ClosedMsg
  | DoneRule
  | DoneBanner

text \<open>
  What a run does, in order: the library calls it makes, the lines it prints, the
  lookups and stores on \<open>migrated_records\<close>, and the draws of \<open>uuid.uuid4()\<close>.
\<close>

datatype event =
    Ext call
  | Print line
  | RegGet string
  | RegPut string string
  | Uuid4 nat

section \<open>The environment of a run\<close>

text \<open>
  Everything the script takes from outside: the contents of the source tables, the
  trigger names the catalogue query returns, which library calls raise, the identifiers
  \<open>uuid.uuid4()\<close> returns (by the number of the draw), and the Python builtins on the
  values whose text form the model does not compute.
\<close>

record env =
  source :: "tbl \<Rightarrow> row list"
  pg_triggers :: "string list"
  raises :: "call \<Rightarrow> bool"
  uuid4 :: "nat \<Rightarrow> string"
  int_str :: "string \<Rightarrow> int option"
  float_of :: "pyval \<Rightarrow> rat option"
  repr :: "pyval \<Rightarrow> string"

section \<open>Python builtins\<close>

text \<open>Truth value of a Python value, as \<open>if x\<close>, \<open>x or y\<close> and \<open>not x\<close> test it.\<close>

fun truthy :: "pyval \<Rightarrow> bool" where
  "truthy PNone = False"
| "truthy (PBool b) = b"
| "truthy (PInt i) = (i \<noteq> 0)"
| "truthy (PDec q) = (q \<noteq> 0)"
| "truthy (PStr s) = (s \<noteq> [])"
| "truthy (PDate d) = True"
| "truthy PNow = True"

definition py_or :: "pyval \<Rightarrow> pyval \<Rightarrow> pyval" where
  "py_or a b = (if truthy a then a else b)"

definition digit :: "nat \<Rightarrow> char" where
  "digit d = ''0123456789'' ! d"

fun str_nat :: "nat \<Rightarrow> string" where
  "str_nat n = (if n < 10 then [digit n] else str_nat (n div 10) @ [digit (n mod 10)])"

declare str_nat.simps [simp del]

definition str_int :: "int \<Rightarrow> string" where
  "str_int i = (if i < 0 then CHR ''-'' # str_nat (nat (- i)) else str_nat (nat i))"

text \<open>\<open>str(x)\<close>, as an f-string formats a field.\<close>

fun py_str :: "env \<Rightarrow> pyval \<Rightarrow> string" where
  "py_str E PNone = ''None''"
| "py_str E (PBool b) = (if b then ''True'' else ''False'')"
| "py_str E (PInt i) = str_int i"
| "py_str E (PStr s) = s"
| "py_str E v = repr E v"

text \<open>\<open>int(x)\<close>: truncation toward zero on an exact numeric value.\<close>

fun py_int :: "env \<Rightarrow> pyval \<Rightarrow> error + int" where
  "py_int E PNone = Inl TypeError"
| "py_int E (PBool b) = Inr (if b then 1 else 0)"
| "py_int E (PInt i) = Inr i"
| "py_int E (PDec q) = Inr (if q < 0 then - \<lfloor>- q\<rfloor> else \<lfloor>q\<rfloor>)"
| "py_int E (PStr s) = (case int_str E s of None \<Rightarrow> Inl ValueError | Some i \<Rightarrow> Inr i)"
| "py_int E (PDate d) = Inl TypeError"
| "py_int E PNow = Inl TypeError"

text \<open>\<open>float(x)\<close>: the float nearest to the value, which the environment supplies.\<close>

fun py_float :: "env \<Rightarrow> pyval \<Rightarrow> error + pyval" where
  "py_float E PNone = Inl TypeError"
| "py_float E (PDate d) = Inl TypeError"
| "py_float E PNow = Inl TypeError"
| "py_float E v = (case float_of E v of None \<Rightarrow> Inl ValueError | Some q \<Rightarrow> Inr (PDec q))"

definition getitem :: "row \<Rightarrow> string \<Rightarrow> error + pyval" where
  "getitem r k = (case r k of None \<Rightarrow> Inl (KeyError k) | Some v \<Rightarrow> Inr v)"

definition bindE :: "error + 'a \<Rightarrow> ('a \<Rightarrow> error + 'b) \<Rightarrow> error + 'b" where
  "bindE m f = (case m of Inl e \<Rightarrow> Inl e | Inr x \<Rightarrow> f x)"

text \<open>A tuple display evaluates its items left to right; the first that raises wins.\<close>

fun build :: "(error + pyval) list \<Rightarrow> error + tuple" where
  "build [] = Inr []"
| "build (x # xs) = bindE x (\<lambda>v. bindE (build xs) (\<lambda>vs. Inr (v # vs)))"

section \<open>Row transforms\<close>

definition employee_tuple :: "string \<Rightarrow> row \<Rightarrow> error + tuple" where
  "employee_tuple emp_id emp = build
     [Inr (PStr emp_id),
      getitem emp ''nama_karyawan'',
      getitem emp ''email'',
      getitem emp ''nomor_telepon'',
      Inr (PStr ''technician''),
      Inr (PStr ''available''),
      Inr (PDec 0),
      Inr (PInt 0),
      Inr PNone,
      Inr PNow,
      Inr PNow]"

definition customer_tuple :: "string \<Rightarrow> row \<Rightarrow> error + tuple" where
  "customer_tuple cust_id member = build
     [Inr (PStr cust_id),
      getitem member ''nama_member'',
      getitem member ''nomor_telepon'',
      Inr PNone,
      getitem member ''alamat'',
      Inr (PStr ''retail''),
      Inr (PInt 0),
      Inr (PDec 0),
      Inr (PBool False),
      Inr PNone,
      Inr PNow,
      Inr PNow,
      Inr (PDec 0)]"

definition product_tuple :: "env \<Rightarrow> string \<Rightarrow> row \<Rightarrow> error + tuple" where
  "product_tuple E prod_id prd = build
     [Inr (PStr prod_id),
      bindE (getitem prd ''seri'') (\<lambda>seri.
        if truthy seri then Inr seri
        else bindE (getitem prd ''id_product'') (\<lambda>i. Inr (PStr (''SKU-'' @ py_str E i)))),
      bindE (getitem prd ''nama'') (\<lambda>v. Inr (py_or v (PStr ''Unnamed Product''))),
      getitem prd ''deskripsi'',
      Inr (PStr ''spare_parts''),
      bindE (getitem prd ''satuan'') (\<lambda>v. Inr (py_or v (PStr ''pcs''))),
      bindE (getitem prd ''hpp'') (\<lambda>v. Inr (py_or v (PInt 0))),
      bindE (getitem prd ''harga'') (\<lambda>v. Inr (py_or v (PInt 0))),
      bindE (getitem prd ''stok'') (\<lambda>v. Inr (py_or v (PInt 0))),
      Inr (PInt 5),
      Inr (PBool False),
      Inr (PBool True),
      Inr PNow,
      Inr PNow,
      Inr PNone]"

text \<open>\<open>int(x) if x else 0\<close> and its siblings: the field is read, tested, read again.\<close>

definition int_or :: "env \<Rightarrow> row \<Rightarrow> string \<Rightarrow> int \<Rightarrow> error + pyval" where
  "int_or E r k d =
     bindE (getitem r k) (\<lambda>v.
       if truthy v then bindE (py_int E v) (\<lambda>i. Inr (PInt i)) else Inr (PInt d))"

definition float_or_zero :: "env \<Rightarrow> row \<Rightarrow> string \<Rightarrow> error + pyval" where
  "float_or_zero E r k =
     bindE (getitem r k) (\<lambda>v. if truthy v then py_float E v else Inr (PDec 0))"

definition invoice_tuple :: "env \<Rightarrow> string \<Rightarrow> string \<Rightarrow> row \<Rightarrow> error + tuple" where
  "invoice_tuple E inv_id cust_id txn = build
     [Inr (PStr inv_id),
      getitem txn ''id_transaksi'',
      Inr (PStr cust_id),
      getitem txn ''tanggal_transaksi'',
      Inr PNone,
      Inr (PStr ''completed''),
      bindE (getitem txn ''status_transaksi'') (\<lambda>v.
        Inr (PStr (if v = PStr ''paid'' then ''paid'' else ''unpaid''))),
      Inr (PDec 0),
      int_or E txn ''total_pembelian'' 0,
      Inr (PDec 0),
      Inr (PDec 0),
      int_or E txn ''total_pembelian'' 0,
      bindE (getitem txn ''total_pembayaran'') (\<lambda>v. Inr (py_or v (PInt 0))),
      getitem txn ''catatan'',
      Inr PNone,
      Inr PNone,
      Inr PNow,
      Inr PNow,
      getitem txn ''lokasi'']"

definition item_tuple :: "env \<Rightarrow> string \<Rightarrow> string \<Rightarrow> string \<Rightarrow> row \<Rightarrow> error + tuple" where
  "item_tuple E item_id inv_id prod_id detail = build
     [Inr (PStr item_id),
      Inr (PStr inv_id),
      Inr (PStr prod_id),
      getitem detail ''nama_product'',
      Inr PNone,
      Inr PNone,
      int_or E detail ''qty'' 1,
      float_or_zero E detail ''harga'',
      Inr (PDec 0),
      float_or_zero E detail ''subtotal'',
      Inr (PBool False),
      Inr PNone,
      Inr PNow,
      Inr PNow]"

section \<open>The state of a run\<close>

text \<open>
  The object \<open>MySQLToPGMigration\<close>: the two connection attributes (\<open>None\<close> until
  \<open>connect\<close> sets them) and the dictionary \<open>migrated_records\<close>. With it, what the
  run has done outside the object: how many identifiers it has drawn, the rows of the
  target tables as the open transaction sees them and as last committed, and the events
  so far.
\<close>

datatype handle = Handle

record state =
  mysql_conn :: "handle option"
  pg_conn :: "handle option"
  migrated_records :: "string \<rightharpoonup> string"
  uuid_count :: nat
  pg_tables :: "tbl \<Rightarrow> tuple list"
  pg_committed :: "tbl \<Rightarrow> tuple list"
  trace :: "event list"

text \<open>\<open>__init__\<close>, on a target store that holds \<open>db\<close>.\<close>

definition init :: "(tbl \<Rightarrow> tuple list) \<Rightarrow> state" where
  "init db = \<lparr>mysql_conn = None, pg_conn = None, migrated_records = Map.empty,
     uuid_count = 0, pg_tables = db, pg_committed = db, trace = []\<rparr>"

text \<open>A statement either returns a value or raises; both leave a state behind.\<close>

type_synonym 'a prog = "state \<Rightarrow> state \<times> (error + 'a)"

definition ret :: "'a \<Rightarrow> 'a prog" where
  "ret x = (\<lambda>s. (s, Inr x))"

definition raise :: "error \<Rightarrow> 'a prog" where
  "raise e = (\<lambda>s. (s, Inl e))"

definition bind :: "'a prog \<Rightarrow> ('a \<Rightarrow> 'b prog) \<Rightarrow> 'b prog" where
  "bind m f = (\<lambda>s. case m s of (s', Inl e) \<Rightarrow> (s', Inl e) | (s', Inr x) \<Rightarrow> f x s')"

definition seq :: "'a prog \<Rightarrow> 'b prog \<Rightarrow> 'b prog" where
  "seq m k = bind m (\<lambda>_. k)"

definition lift :: "error + 'a \<Rightarrow> 'a prog" where
  "lift r = (\<lambda>s. (s, r))"

text \<open>\<open>try: body except Exception as e: handler e\<close>.\<close>

definition try_except :: "unit prog \<Rightarrow> (error \<Rightarrow> unit prog) \<Rightarrow> unit prog" where
  "try_except body handler =
     (\<lambda>s. case body s of (s', Inl e) \<Rightarrow> handler e s' | (s', Inr x) \<Rightarrow> (s', Inr x))"

text \<open>\<open>try: body except: pass\<close>.\<close>

definition swallow :: "unit prog \<Rightarrow> unit prog" where
  "swallow body = (\<lambda>s. (fst (body s), Inr ()))"

definition emit :: "event \<Rightarrow> unit prog" where
  "emit e = (\<lambda>s. (s\<lparr>trace := trace s @ [e]\<rparr>, Inr ()))"

definition print :: "line \<Rightarrow> unit prog" where
  "print l = emit (Print l)"

text \<open>A library call: it is made, and raises when the environment says so.\<close>

definition ext :: "env \<Rightarrow> call \<Rightarrow> unit prog" where
  "ext E c = (\<lambda>s. (s\<lparr>trace := trace s @ [Ext c]\<rparr>,
     if raises E c then Inl (StoreError c) else Inr ()))"

text \<open>A method call on \<open>self.mysql_conn\<close> or \<open>self.pg_conn\<close>: on \<open>None\<close> it is an
  AttributeError.\<close>

definition mysql_call :: "env \<Rightarrow> call \<Rightarrow> unit prog" where
  "mysql_call E c = (\<lambda>s. case mysql_conn s of None \<Rightarrow> (s, Inl AttributeError)
     | Some h \<Rightarrow> ext E c s)"

definition pg_call :: "env \<Rightarrow> call \<Rightarrow> unit prog" where
  "pg_call E c = (\<lambda>s. case pg_conn s of None \<Rightarrow> (s, Inl AttributeError)
     | Some h \<Rightarrow> ext E c s)"

text \<open>\<open>str(uuid.uuid4())\<close>.\<close>

definition new_uuid :: "env \<Rightarrow> string prog" where
  "new_uuid E = (\<lambda>s. (s\<lparr>uuid_count := Suc (uuid_count s),
       trace := trace s @ [Uuid4 (uuid_count s)]\<rparr>, Inr (uuid4 E (uuid_count s))))"

text \<open>\<open>self.migrated_records[k] = v\<close> and \<open>self.migrated_records.get(k)\<close>.\<close>

definition reg_put :: "string \<Rightarrow> string \<Rightarrow> unit prog" where
  "reg_put k v = (\<lambda>s. (s\<lparr>migrated_records := (migrated_records s)(k \<mapsto> v),
       trace := trace s @ [RegPut k v]\<rparr>, Inr ()))"

definition reg_get :: "string \<Rightarrow> (string option) prog" where
  "reg_get k = (\<lambda>s. (s\<lparr>trace := trace s @ [RegGet k]\<rparr>, Inr (migrated_records s k)))"

text \<open>\<open>not x\<close> on the result of \<open>get\<close>: \<open>None\<close> and the empty string are false.\<close>

definition found :: "string option \<Rightarrow> bool" where
  "found r = (case r of None \<Rightarrow> False | Some v \<Rightarrow> v \<noteq> [])"

section \<open>The target store\<close>

text \<open>
  The bulk insert adds its rows to the open transaction, the commit makes the
  transaction's rows the committed ones, the rollback drops what is not committed. A
  call that raises changes nothing.
\<close>

definition execute_values :: "env \<Rightarrow> tbl \<Rightarrow> tuple list \<Rightarrow> unit prog" where
  "execute_values E t data = seq (ext E (ExecuteValues t data))
     (\<lambda>s. (s\<lparr>pg_tables := (pg_tables s)(t := pg_tables s t @ data)\<rparr>, Inr ()))"

definition commit :: "env \<Rightarrow> tbl \<Rightarrow> unit prog" where
  "commit E t = seq (pg_call E (PgCommit t))
     (\<lambda>s. (s\<lparr>pg_committed := pg_tables s\<rparr>, Inr ()))"

definition rollback :: "env \<Rightarrow> tbl \<Rightarrow> unit prog" where
  "rollback E t = seq (pg_call E (PgRollback t))
     (\<lambda>s. (s\<lparr>pg_tables := pg_committed s\<rparr>, Inr ()))"

section \<open>The transfers\<close>

text \<open>A \<open>for\<close> loop over the fetched rows that builds the list \<open>data\<close>.\<close>

fun for_rows :: "(tuple list \<Rightarrow> row \<Rightarrow> (tuple list) prog) \<Rightarrow> row list \<Rightarrow> tuple list
    \<Rightarrow> (tuple list) prog" where
  "for_rows body [] data = ret data"
| "for_rows body (r # rs) data = bind (body data r) (for_rows body rs)"

text \<open>The three calls that fetch a source table, and the target cursor.\<close>

definition fetch_source :: "env \<Rightarrow> tbl \<Rightarrow> (row list) prog" where
  "fetch_source E t =
     seq (mysql_call E (MysqlCursor t))
    (seq (ext E (MysqlExecute t))
    (seq (ext E (MysqlFetchall t))
    (seq (pg_call E (PgCursor t))
         (ret (source E t)))))"

text \<open>How every transfer ends: the insert, the commit, the count, the cursor's close.\<close>

definition finish :: "env \<Rightarrow> tbl \<Rightarrow> tuple list \<Rightarrow> unit prog" where
  "finish E t data =
     seq (commit E t)
    (seq (print (Migrated t (length data)))
         (ext E (MysqlCursorClose t)))"

text \<open>The handler of every transfer: the diagnostic, then the rollback.\<close>

definition on_error :: "env \<Rightarrow> tbl \<Rightarrow> error \<Rightarrow> unit prog" where
  "on_error E t e = seq (print (MigrateError t e)) (rollback E t)"

definition employee_step :: "env \<Rightarrow> tuple list \<Rightarrow> row \<Rightarrow> (tuple list) prog" where
  "employee_step E data emp =
     bind (new_uuid E) (\<lambda>emp_id.
     bind (lift (employee_tuple emp_id emp)) (\<lambda>t.
     bind (lift (getitem emp ''id_karyawan'')) (\<lambda>i.
     seq (reg_put (''emp_'' @ py_str E i) emp_id)
         (ret (data @ [t])))))"

definition customer_step :: "env \<Rightarrow> tuple list \<Rightarrow> row \<Rightarrow> (tuple list) prog" where
  "customer_step E data member =
     bind (new_uuid E) (\<lambda>cust_id.
     bind (lift (customer_tuple cust_id member)) (\<lambda>t.
     bind (lift (getitem member ''id_member'')) (\<lambda>i.
     seq (reg_put (''member_'' @ py_str E i) cust_id)
         (ret (data @ [t])))))"

definition product_step :: "env \<Rightarrow> tuple list \<Rightarrow> row \<Rightarrow> (tuple list) prog" where
  "product_step E data prd =
     bind (new_uuid E) (\<lambda>prod_id.
     bind (lift (product_tuple E prod_id prd)) (\<lambda>t.
     bind (lift (getitem prd ''id_product'')) (\<lambda>i.
     seq (reg_put (''prod_'' @ py_str E i) prod_id)
         (ret (data @ [t])))))"

definition invoice_step :: "env \<Rightarrow> tuple list \<Rightarrow> row \<Rightarrow> (tuple list) prog" where
  "invoice_step E data txn =
     bind (new_uuid E) (\<lambda>inv_id.
     bind (lift (getitem txn ''id_member'')) (\<lambda>m.
     bind (reg_get (''member_'' @ py_str E m)) (\<lambda>cust_id.
     if \<not> found cust_id then ret data
     else
       bind (lift (invoice_tuple E inv_id (the cust_id) txn)) (\<lambda>t.
       bind (lift (getitem txn ''id_transaksi'')) (\<lambda>i.
       seq (reg_put (''txn_'' @ py_str E i) inv_id)
           (ret (data @ [t])))))))"

definition item_step :: "env \<Rightarrow> tuple list \<Rightarrow> row \<Rightarrow> (tuple list) prog" where
  "item_step E data detail =
     bind (lift (getitem detail ''id_transaksi'')) (\<lambda>i.
     bind (reg_get (''txn_'' @ py_str E i)) (\<lambda>inv_id.
     bind (lift (getitem detail ''id_product'')) (\<lambda>p.
     bind (reg_get (''prod_'' @ py_str E p)) (\<lambda>prod_id.
     if \<not> found inv_id \<or> \<not> found prod_id then ret data
     else
       bind (new_uuid E) (\<lambda>item_id.
       bind (lift (item_tuple E item_id (the inv_id) (the prod_id) detail)) (\<lambda>t.
       ret (data @ [t])))))))"

text \<open>
  Every transfer announces itself and runs its body under \<open>try\<close>; the handler is
  \<open>on_error\<close>.
\<close>

definition guarded :: "env \<Rightarrow> tbl \<Rightarrow> unit prog \<Rightarrow> unit prog" where
  "guarded E t body = seq (print (Migrating t)) (try_except body (on_error E t))"

text \<open>The body of the four transfers of one shape.\<close>

definition transfer_body ::
  "env \<Rightarrow> tbl \<Rightarrow> (tuple list \<Rightarrow> row \<Rightarrow> (tuple list) prog) \<Rightarrow> unit prog" where
  "transfer_body E t step =
     bind (fetch_source E t) (\<lambda>rows.
     bind (for_rows step rows []) (\<lambda>data.
     seq (execute_values E t data)
         (finish E t data)))"

definition migrate_employees :: "env \<Rightarrow> unit prog" where
  "migrate_employees E = guarded E Employees (transfer_body E Employees (employee_step E))"

definition migrate_customers :: "env \<Rightarrow> unit prog" where
  "migrate_customers E = guarded E Customers (transfer_body E Customers (customer_step E))"

definition migrate_products :: "env \<Rightarrow> unit prog" where
  "migrate_products E = guarded E Products (transfer_body E Products (product_step E))"

definition migrate_invoices :: "env \<Rightarrow> unit prog" where
  "migrate_invoices E = guarded E Invoices (transfer_body E Invoices (invoice_step E))"

text \<open>The two loops over the fetched trigger names; each toggle swallows what it raises.\<close>

fun toggle :: "env \<Rightarrow> (nat \<Rightarrow> string \<Rightarrow> call) \<Rightarrow> nat \<Rightarrow> string list \<Rightarrow> unit prog" where
  "toggle E c n [] = ret ()"
| "toggle E c n (t # ts) = seq (swallow (ext E (c n t))) (toggle E c (Suc n) ts)"

definition items_body :: "env \<Rightarrow> unit prog" where
  "items_body E =
     bind (fetch_source E InvoiceItems) (\<lambda>details.
     seq (ext E SetConstraintsDeferred)
    (seq (ext E SelectTriggers)
    (seq (ext E FetchTriggers)
    (seq (toggle E DisableTrigger 0 (pg_triggers E))
    (bind (for_rows (item_step E) details []) (\<lambda>data.
     seq (if data \<noteq> [] then execute_values E InvoiceItems data else ret ())
    (seq (toggle E EnableTrigger 0 (pg_triggers E))
         (finish E InvoiceItems data))))))))"

definition migrate_invoice_items :: "env \<Rightarrow> unit prog" where
  "migrate_invoice_items E = guarded E InvoiceItems (items_body E)"

section \<open>The orchestrator\<close>

definition connect :: "env \<Rightarrow> unit prog" where
  "connect E =
     try_except
       (seq (ext E MysqlConnect)
       (seq (\<lambda>s. (s\<lparr>mysql_conn := Some Handle\<rparr>, Inr ()))
       (seq (ext E PgConnect)
       (seq (\<lambda>s. (s\<lparr>pg_conn := Some Handle\<rparr>, Inr ()))
            (print ConnectOk)))))
       (\<lambda>e. seq (print (ConnectError e)) (raise (SystemExit 1)))"

definition close :: "env \<Rightarrow> unit prog" where
  "close E =
     seq (\<lambda>s. if mysql_conn s \<noteq> None then ext E MysqlClose s else (s, Inr ()))
    (seq (\<lambda>s. if pg_conn s \<noteq> None then ext E PgClose s else (s, Inr ()))
         (print ClosedMsg))"

definition main :: "env \<Rightarrow> unit prog" where
  "main E =
     seq (connect E)
    (seq (print Rule)
    (seq (print StartBanner)
    (seq (print Rule)
    (seq (migrate_employees E)
    (seq (migrate_customers E)
    (seq (migrate_products E)
    (seq (migrate_invoices E)
    (seq (migrate_invoice_items E)
    (seq (close E)
    (seq (print DoneRule)
    (seq (print DoneBanner)
         (print Rule))))))))))))"

text \<open>
  The status the process ends with: 0 when \<open>main\<close> returns, the argument of
  \<open>sys.exit\<close>, and 1 for any other exception that leaves \<open>main\<close>.
\<close>

definition exit_status :: "state \<times> (error + unit) \<Rightarrow> nat" where
  "exit_status r = (case snd r of Inr u \<Rightarrow> 0 | Inl (SystemExit n) \<Rightarrow> n | Inl e \<Rightarrow> 1)"

section \<open>Observing a run\<close>

text \<open>
  The tag of a key of \<open>migrated_records\<close> is what stands before its first underscore:
  \<open>emp\<close>, \<open>member\<close>, \<open>prod\<close> or \<open>txn\<close>.
\<close>

definition tag_of :: "string \<Rightarrow> string" where
  "tag_of k = takeWhile (\<lambda>c. c \<noteq> CHR ''_'') k"

text \<open>
  A statement emits events of a kind \<open>A\<close> when, started anywhere, it leaves the two
  connections as they are and only appends events of that kind to the trace.
\<close>

definition emits :: "(event \<Rightarrow> bool) \<Rightarrow> 'a prog \<Rightarrow> bool" where
  "emits A m = (\<forall>s. mysql_conn (fst (m s)) = mysql_conn s \<and> pg_conn (fst (m s)) = pg_conn s \<and>
     (\<exists>evs. trace (fst (m s)) = trace s @ evs \<and> list_all A evs))"

text \<open>
  The tags a transfer stores under and looks up, and the events the body of a transfer
  may append: any library call but a connect or a close, its own count and diagnostic,
  lookups and stores under its own tags, and draws of identifiers.
\<close>

fun put_tag :: "tbl \<Rightarrow> string list" where
  "put_tag Employees = [''emp'']"
| "put_tag Customers = [''member'']"
| "put_tag Products = [''prod'']"
| "put_tag Invoices = [''txn'']"
| "put_tag InvoiceItems = []"

fun get_tag :: "tbl \<Rightarrow> string list" where
  "get_tag Invoices = [''member'']"
| "get_tag InvoiceItems = [''txn'', ''prod'']"
| "get_tag t = []"

fun body_event :: "tbl \<Rightarrow> event \<Rightarrow> bool" where
  "body_event t (Ext c) = (c \<notin> {MysqlConnect, PgConnect, MysqlClose, PgClose})"
| "body_event t (Print l) = (case l of Migrated t' n \<Rightarrow> t' = t | MigrateError t' e \<Rightarrow> t' = t | _ \<Rightarrow> False)"
| "body_event t (RegGet k) = (tag_of k \<in> set (get_tag t))"
| "body_event t (RegPut k v) = (tag_of k \<in> set (put_tag t))"
| "body_event t (Uuid4 n) = True"

text \<open>The transfers a trace announces, in order.\<close>

fun migrating :: "event list \<Rightarrow> tbl list" where
  "migrating [] = []"
| "migrating (Print (Migrating t) # es) = t # migrating es"
| "migrating (e # es) = migrating es"

definition conns_open :: "state \<Rightarrow> bool" where
  "conns_open s = (mysql_conn s \<noteq> None \<and> pg_conn s \<noteq> None)"

text \<open>The events of a whole transfer: those of its body, and its own announcement.\<close>

fun transfer_event :: "tbl \<Rightarrow> event \<Rightarrow> bool" where
  "transfer_event t (Print (Migrating t')) = (t' = t)"
| "transfer_event t e = body_event t e"

text \<open>
  No call outside a \<open>try\<close> raises: neither connect, no rollback (the handlers call it),
  neither close.
\<close>

definition no_handler_raises :: "env \<Rightarrow> bool" where
  "no_handler_raises E = (\<not> raises E MysqlConnect \<and> \<not> raises E PgConnect \<and>
     (\<forall>t. \<not> raises E (PgRollback t)) \<and> \<not> raises E MysqlClose \<and> \<not> raises E PgClose)"

text \<open>
  A predicate on states is stable under a statement when the statement, started in a
  state where it holds, leaves one where it holds, whether it returns or raises.
\<close>

definition stable :: "(state \<Rightarrow> bool) \<Rightarrow> 'a prog \<Rightarrow> bool" where
  "stable I m = (\<forall>s. I s \<longrightarrow> I (fst (m s)))"

text \<open>
  The identifiers a trace stores in the registry, the draws it makes, and the registry
  that its stores build from a given one.
\<close>

fun stored :: "event list \<Rightarrow> string list" where
  "stored [] = []"
| "stored (RegPut k v # es) = v # stored es"
| "stored (e # es) = stored es"

fun draws :: "event list \<Rightarrow> nat list" where
  "draws [] = []"
| "draws (Uuid4 n # es) = n # draws es"
| "draws (e # es) = draws es"

fun registry_after :: "(string \<rightharpoonup> string) \<Rightarrow> event list \<Rightarrow> (string \<rightharpoonup> string)" where
  "registry_after m [] = m"
| "registry_after m (RegPut k v # es) = registry_after (m(k \<mapsto> v)) es"
| "registry_after m (e # es) = registry_after m es"

text \<open>
  The registry is what the stores of the trace have built, no identifier is stored twice,
  every stored identifier has been drawn, and the draws are numbered in order.
\<close>

definition registry_inv :: "env \<Rightarrow> state \<Rightarrow> bool" where
  "registry_inv E s = (migrated_records s = registry_after Map.empty (trace s) \<and>
     distinct (stored (trace s)) \<and> set (stored (trace s)) \<subseteq> uuid4 E ` {..< uuid_count s} \<and>
     draws (trace s) = [0 ..< uuid_count s])"

text \<open>An identifier that has been drawn and not yet stored.\<close>

definition fresh_inv :: "env \<Rightarrow> string \<Rightarrow> state \<Rightarrow> bool" where
  "fresh_inv E u s = (registry_inv E s \<and> u \<in> uuid4 E ` {..< uuid_count s} \<and>
     u \<notin> set (stored (trace s)))"

definition leads :: "(state \<Rightarrow> bool) \<Rightarrow> 'a prog \<Rightarrow> (state \<Rightarrow> bool) \<Rightarrow> bool" where
  "leads P m Q = (\<forall>s. P s \<longrightarrow> Q (fst (m s)))"

text \<open>
  The tags a trace looks up, and the order the transfers rely on: no store under a tag
  comes after a lookup under that tag. The set \<open>seen\<close> holds the tags looked up so
  far.
\<close>

fun looked_up :: "event list \<Rightarrow> string set" where
  "looked_up [] = {}"
| "looked_up (RegGet k # es) = insert (tag_of k) (looked_up es)"
| "looked_up (e # es) = looked_up es"

fun lookups_after_stores :: "string set \<Rightarrow> event list \<Rightarrow> bool" where
  "lookups_after_stores seen [] = True"
| "lookups_after_stores seen (RegGet k # es) = lookups_after_stores (insert (tag_of k) seen) es"
| "lookups_after_stores seen (RegPut k v # es) =
     (tag_of k \<notin> seen \<and> lookups_after_stores seen es)"
| "lookups_after_stores seen (e # es) = lookups_after_stores seen es"

text \<open>An event that respects the order when the tags of \<open>G\<close> may be looked up.\<close>

fun ok_event :: "string set \<Rightarrow> event \<Rightarrow> bool" where
  "ok_event G (RegGet k) = (tag_of k \<in> G)"
| "ok_event G (RegPut k v) = (tag_of k \<notin> G)"
| "ok_event G e = True"

text \<open>
  The trace of a state respects the order and has looked up tags of \<open>G\<close> only; the
  draws of a state are numbered in order.
\<close>

definition ordered_upto :: "string set \<Rightarrow> state \<Rightarrow> bool" where
  "ordered_upto G s = (lookups_after_stores {} (trace s) \<and> looked_up (trace s) \<subseteq> G)"

definition draws_inv :: "state \<Rightarrow> bool" where
  "draws_inv s = (draws (trace s) = [0 ..< uuid_count s])"

text \<open>The number a string of digits writes.\<close>

definition nat_of_str :: "string \<Rightarrow> nat" where
  "nat_of_str s = foldl (\<lambda>a c. 10 * a + (of_char c - 48)) 0 s"

text \<open>
  The loop body of the three transfers without a parent: draw an identifier, build the
  tuple with \<open>mk\<close>, store the identifier under the row's own key.
\<close>

definition plain_step ::
  "env \<Rightarrow> (string \<Rightarrow> row \<Rightarrow> error + tuple) \<Rightarrow> string \<Rightarrow> string \<Rightarrow> tuple list \<Rightarrow> row
     \<Rightarrow> (tuple list) prog" where
  "plain_step E mk idcol prefix data r =
     bind (new_uuid E) (\<lambda>u.
     bind (lift (mk u r)) (\<lambda>t.
     bind (lift (getitem r idcol)) (\<lambda>i.
     seq (reg_put (prefix @ py_str E i) u)
         (ret (data @ [t])))))"

text \<open>
  Rows on which the transform \<open>mk\<close> does not raise and whose identifier column holds
  pairwise distinct integers.
\<close>

definition plain_rows :: "(string \<Rightarrow> row \<Rightarrow> error + tuple) \<Rightarrow> string \<Rightarrow> row list \<Rightarrow> bool" where
  "plain_rows mk idcol rows =
     ((\<forall>r \<in> set rows. (\<forall>u. \<exists>t. mk u r = Inr t) \<and> (\<exists>i. r idcol = Some (PInt i))) \<and>
      distinct (map (\<lambda>r. r idcol) rows))"

text \<open>The registry key of a row.\<close>

definition row_key :: "env \<Rightarrow> string \<Rightarrow> string \<Rightarrow> row \<Rightarrow> string" where
  "row_key E prefix idcol r = prefix @ py_str E (the (r idcol))"

text \<open>The four calls that fetch a source table return.\<close>

definition fetch_ok :: "env \<Rightarrow> tbl \<Rightarrow> bool" where
  "fetch_ok E t = (\<not> raises E (MysqlCursor t) \<and> \<not> raises E (MysqlExecute t) \<and>
     \<not> raises E (MysqlFetchall t) \<and> \<not> raises E (PgCursor t))"

text \<open>
  What the statement \<open>m\<close>, a transfer of a table without a parent started in \<open>s\<close>,
  does with the rows of the source table: the batch \<open>ts\<close> it hands to the bulk insert
  has one tuple for each row, in order, the transform of that row under the identifier
  drawn for it; that identifier stands first in the tuple, was not drawn before, and is
  what the registry maps the row's key to afterwards; no two tuples share an identifier;
  and when neither the insert nor the commit raises, the committed target table has
  gained exactly these tuples.
\<close>

definition transfers_each_row ::
  "env \<Rightarrow> tbl \<Rightarrow> (string \<Rightarrow> row \<Rightarrow> error + tuple) \<Rightarrow> string \<Rightarrow> string \<Rightarrow> unit prog \<Rightarrow> state
     \<Rightarrow> bool" where
  "transfers_each_row E t mk idcol prefix m s =
     (\<exists>ts. length ts = length (source E t) \<and>
        Ext (ExecuteValues t ts) \<in> set (trace (fst (m s))) \<and>
        (\<forall>j < length (source E t).
           mk (uuid4 E (uuid_count s + j)) (source E t ! j) = Inr (ts ! j) \<and>
           ts ! j ! 0 = PStr (uuid4 E (uuid_count s + j)) \<and>
           uuid4 E (uuid_count s + j) \<notin> uuid4 E ` {..< uuid_count s} \<and>
           migrated_records (fst (m s)) (row_key E prefix idcol (source E t ! j)) =
             Some (uuid4 E (uuid_count s + j))) \<and>
        distinct (map (\<lambda>tp. tp ! 0) ts) \<and>
        (\<not> raises E (ExecuteValues t ts) \<and> \<not> raises E (PgCommit t) \<longrightarrow>
           pg_committed (fst (m s)) t = pg_tables s t @ ts))"

text \<open>
  A transaction row is mapped in a registry \<open>R\<close> when the lookup of its member key in
  \<open>R\<close> is true in Python's sense; its own key is the one the invoice transfer stores
  under.
\<close>

definition member_key :: "env \<Rightarrow> row \<Rightarrow> string" where
  "member_key E r = ''member_'' @ py_str E (the (r ''id_member''))"

definition txn_key :: "env \<Rightarrow> row \<Rightarrow> string" where
  "txn_key E r = ''txn_'' @ py_str E (the (r ''id_transaksi''))"

definition mapped :: "env \<Rightarrow> (string \<rightharpoonup> string) \<Rightarrow> row \<Rightarrow> bool" where
  "mapped E R r = found (R (member_key E r))"

text \<open>
  The bulk insert or the commit of a transfer raises and its rollback returns; and what
  then holds after the transfer \<open>m\<close> started in \<open>s\<close>: it returns normally, nothing
  more is committed, the open transaction is empty again, and the registry maps the key
  of every source row to the identifier drawn for it.
\<close>

definition insert_fails :: "env \<Rightarrow> tbl \<Rightarrow> bool" where
  "insert_fails E t = (((\<forall>d. raises E (ExecuteValues t d)) \<or> raises E (PgCommit t)) \<and>
     \<not> raises E (PgRollback t))"

definition survives_rollback ::
  "env \<Rightarrow> tbl \<Rightarrow> string \<Rightarrow> string \<Rightarrow> unit prog \<Rightarrow> state \<Rightarrow> bool" where
  "survives_rollback E t idcol prefix m s =
     (snd (m s) = Inr () \<and> pg_committed (fst (m s)) = pg_committed s \<and>
      pg_tables (fst (m s)) = pg_committed s \<and>
      (\<forall>j < length (source E t).
         migrated_records (fst (m s)) (row_key E prefix idcol (source E t ! j)) =
           Some (uuid4 E (uuid_count s + j))))"

text \<open>The library calls of a trace, in order.\<close>

fun calls :: "event list \<Rightarrow> call list" where
  "calls [] = []"
| "calls (Ext c # es) = c # calls es"
| "calls (e # es) = calls es"

text \<open>
  The calls of the line item transfer. First the fetch, the deferred constraints, the
  catalogue query and a \<open>DISABLE TRIGGER\<close> for every trigger listed, numbered from 0.
  Then, by what the row loop gave: when it raised, the rollback alone; when the insert of
  a batch that is not empty raised, that insert and the rollback; otherwise the insert
  (if the batch is not empty), an \<open>ENABLE TRIGGER\<close> for every trigger listed, the commit,
  and what follows the commit.
\<close>

definition toggles :: "(nat \<Rightarrow> string \<Rightarrow> call) \<Rightarrow> string list \<Rightarrow> call list" where
  "toggles c ts = map (\<lambda>(n, t). c n t) (enumerate 0 ts)"

definition items_setup :: "env \<Rightarrow> call list" where
  "items_setup E = [MysqlCursor InvoiceItems, MysqlExecute InvoiceItems,
     MysqlFetchall InvoiceItems, PgCursor InvoiceItems, SetConstraintsDeferred, SelectTriggers,
     FetchTriggers] @ toggles DisableTrigger (pg_triggers E)"

definition after_commit :: "env \<Rightarrow> call list" where
  "after_commit E =
     (if raises E (PgCommit InvoiceItems) then [PgRollback InvoiceItems]
      else MysqlCursorClose InvoiceItems #
        (if raises E (MysqlCursorClose InvoiceItems) then [PgRollback InvoiceItems] else []))"

fun items_calls :: "env \<Rightarrow> tuple list option \<Rightarrow> call list" where
  "items_calls E None = items_setup E @ [PgRollback InvoiceItems]"
| "items_calls E (Some d) =
     (if d \<noteq> [] \<and> raises E (ExecuteValues InvoiceItems d)
      then items_setup E @ [ExecuteValues InvoiceItems d, PgRollback InvoiceItems]
      else items_setup E @ (if d \<noteq> [] then [ExecuteValues InvoiceItems d] else []) @
        toggles EnableTrigger (pg_triggers E) @ [PgCommit InvoiceItems] @ after_commit E)"

definition setup_ok :: "env \<Rightarrow> bool" where
  "setup_ok E = (fetch_ok E InvoiceItems \<and> \<not> raises E SetConstraintsDeferred \<and>
     \<not> raises E SelectTriggers \<and> \<not> raises E FetchTriggers)"

text \<open>The state in which the row loop of the line item transfer starts.\<close>

definition before_items_loop :: "env \<Rightarrow> state \<Rightarrow> state" where
  "before_items_loop E s =
     s\<lparr>trace := trace s @ Print (Migrating InvoiceItems) # map Ext (items_setup E)\<rparr>"

section \<open>A small run\<close>

text \<open>
  Concrete rows and a concrete environment, on which the theorems below are also
  evaluated: one employee, three customers, one product, two transactions of which the
  second names a customer that does not exist, and a line item for each; identifiers
  \<open>u\<close>, \<open>uu\<close>, \<open>uuu\<close>, ... in the order drawn, and no call that raises.
\<close>

definition demo_txn :: "int \<Rightarrow> int \<Rightarrow> pyval \<Rightarrow> pyval \<Rightarrow> row" where
  "demo_txn i m st tot = map_of
     [(''id_transaksi'', PInt i), (''id_member'', PInt m), (''tanggal_transaksi'', PDate 7),
      (''status_transaksi'', st), (''total_pembelian'', tot),
      (''total_pembayaran'', PNone), (''catatan'', PNone), (''lokasi'', PStr ''Jl. Merdeka'')]"

definition demo_detail :: "int \<Rightarrow> int \<Rightarrow> pyval \<Rightarrow> pyval \<Rightarrow> row" where
  "demo_detail i p qty price = map_of
     [(''id_transaksi'', PInt i), (''id_product'', PInt p), (''nama_product'', PStr ''kabel''),
      (''qty'', qty), (''harga'', price), (''subtotal'', price)]"

definition demo_emp :: "int \<Rightarrow> row" where
  "demo_emp i = map_of
     [(''id_karyawan'', PInt i), (''nama_karyawan'', PStr ''Budi''), (''email'', PNone),
      (''nomor_telepon'', PStr ''0812'')]"

definition demo_member :: "int \<Rightarrow> row" where
  "demo_member i = map_of
     [(''id_member'', PInt i), (''nama_member'', PStr ''Sari''),
      (''nomor_telepon'', PStr ''0813''), (''alamat'', PNone)]"

definition demo_product :: "int \<Rightarrow> row" where
  "demo_product i = map_of
     [(''id_product'', PInt i), (''seri'', PNone), (''nama'', PStr ''kabel''),
      (''deskripsi'', PNone), (''satuan'', PNone), (''hpp'', PNone), (''harga'', PInt 1500),
      (''stok'', PInt 3)]"

fun demo_source :: "tbl \<Rightarrow> row list" where
  "demo_source Employees = [demo_emp 1]"
| "demo_source Customers = [demo_member 1, demo_member 2, demo_member 3]"
| "demo_source Products = [demo_product 1]"
| "demo_source Invoices = [demo_txn 10 1 (PStr ''paid'') (PInt 5000), demo_txn 11 4 PNone PNone]"
| "demo_source InvoiceItems =
     [demo_detail 10 1 (PInt 2) (PInt 1500), demo_detail 11 1 PNone PNone]"

definition demo_env :: env where
  "demo_env = \<lparr>source = demo_source, pg_triggers = [''trg_stock''], raises = (\<lambda>c. False),
     uuid4 = (\<lambda>n. replicate (Suc n) CHR ''u''), int_str = (\<lambda>s. None),
     float_of = (\<lambda>v. case v of PInt i \<Rightarrow> Some (of_int i) | PDec q \<Rightarrow> Some q | _ \<Rightarrow> None),
     repr = (\<lambda>v. ''?'')\<rparr>"

definition empty_db :: "tbl \<Rightarrow> tuple list" where
  "empty_db = (\<lambda>t. [])"

text \<open>
  Three environments in which something raises: the target connection is lost right
  after \<open>connect\<close>, so that every later call on it raises; only the bulk insert into
  \<open>customers\<close> raises; the target store cannot be reached at all.
\<close>

fun on_target :: "call \<Rightarrow> bool" where
  "on_target MysqlConnect = False"
| "on_target PgConnect = False"
| "on_target (MysqlCursor t) = False"
| "on_target (MysqlExecute t) = False"
| "on_target (MysqlFetchall t) = False"
| "on_target (MysqlCursorClose t) = False"
| "on_target MysqlClose = False"
| "on_target c = True"

definition lost_env :: env where
  "lost_env = demo_env\<lparr>raises := on_target\<rparr>"

definition lost_trace :: "event list" where
  "lost_trace = [Ext MysqlConnect, Ext PgConnect, Print ConnectOk, Print Rule, Print StartBanner,
     Print Rule, Print (Migrating Employees), Ext (MysqlCursor Employees),
     Ext (MysqlExecute Employees), Ext (MysqlFetchall Employees), Ext (PgCursor Employees),
     Print (MigrateError Employees (StoreError (PgCursor Employees))),
     Ext (PgRollback Employees)]"

fun customers_insert :: "call \<Rightarrow> bool" where
  "customers_insert (ExecuteValues t d) = (t = Customers)"
| "customers_insert c = False"

definition flaky_env :: env where
  "flaky_env = demo_env\<lparr>raises := customers_insert\<rparr>"

definition offline_env :: env where
  "offline_env = demo_env\<lparr>raises := (\<lambda>c. c = PgConnect)\<rparr>"

definition connected :: "state \<Rightarrow> state" where
  "connected s = s\<lparr>mysql_conn := Some Handle, pg_conn := Some Handle\<rparr>"

definition demo_registered :: state where
  "demo_registered = (connected (init empty_db))
     \<lparr>migrated_records := [''member_1'' \<mapsto> ''uu''], uuid_count := 5\<rparr>"

text \<open>
  Two more environments: every trigger toggle and the bulk insert of line items raise;
  only that bulk insert raises. And a state in which the invoice and the product of the
  first demo line item are registered.
\<close>

fun toggle_denied :: "call \<Rightarrow> bool" where
  "toggle_denied (DisableTrigger n t) = True"
| "toggle_denied (EnableTrigger n t) = True"
| "toggle_denied (ExecuteValues t d) = (t = InvoiceItems)"
| "toggle_denied c = False"

fun items_insert :: "call \<Rightarrow> bool" where
  "items_insert (ExecuteValues t d) = (t = InvoiceItems)"
| "items_insert c = False"

definition denied_env :: env where
  "denied_env = demo_env\<lparr>raises := toggle_denied\<rparr>"

definition items_insert_env :: env where
  "items_insert_env = demo_env\<lparr>raises := items_insert\<rparr>"

definition demo_items_ready :: state where
  "demo_items_ready = (connected (init empty_db))
     \<lparr>migrated_records := [''txn_10'' \<mapsto> ''uuuuuu'', ''prod_1'' \<mapsto> ''uuuuu''], uuid_count := 7\<rparr>"

section \<open>Basic facts\<close>

lemma build_Inr: "build xs = Inr t \<longleftrightarrow> xs = map Inr t"
proof (induction xs arbitrary: t)
  case Nil
  then show ?case by auto
next
  case (Cons x xs)
  show ?case
  proof (cases x)
    case (Inl e)
    then show ?thesis by (auto simp: bindE_def)
  next
    case (Inr v)
    show ?thesis
    proof (cases "build xs")
      case (Inl e)
      with Cons[of "tl t"] Inr show ?thesis by (cases t) (auto simp: bindE_def)
    next
      case r: (Inr vs)
      with Cons[of vs] Inr show ?thesis by (cases t) (auto simp: bindE_def)
    qed
  qed
qed

lemma bindE_Inr: "bindE m f = Inr y \<longleftrightarrow> (\<exists>x. m = Inr x \<and> f x = Inr y)"
  by (auto simp: bindE_def split: sum.splits)

lemma getitem_Inr: "getitem r k = Inr v \<longleftrightarrow> r k = Some v"
  by (auto simp: getitem_def split: option.splits)

lemma int_or_Inr:
  "int_or E r k d = Inr v \<longleftrightarrow>
     (\<exists>x. r k = Some x \<and>
        (if truthy x then (\<exists>i. py_int E x = Inr i \<and> v = PInt i) else v = PInt d))"
  by (auto simp: int_or_def bindE_Inr getitem_Inr)

lemma float_or_zero_Inr:
  "float_or_zero E r k = Inr v \<longleftrightarrow>
     (\<exists>x. r k = Some x \<and> (if truthy x then py_float E x = Inr v else v = PDec 0))"
  by (auto simp: float_or_zero_def bindE_Inr getitem_Inr)

section \<open>What a statement appends to the trace\<close>

lemma emitsI:
  assumes "\<And>s. mysql_conn (fst (m s)) = mysql_conn s"
    and "\<And>s. pg_conn (fst (m s)) = pg_conn s"
    and "\<And>s. \<exists>evs. trace (fst (m s)) = trace s @ evs \<and> list_all A evs"
  shows "emits A m"
  using assms by (simp add: emits_def)

lemma emits_ret [intro!, simp]: "emits A (ret x)"
  by (simp add: emits_def ret_def)

lemma emits_raise [intro!, simp]: "emits A (raise e)"
  by (simp add: emits_def raise_def)

lemma emits_lift [intro!, simp]: "emits A (lift r)"
  by (simp add: emits_def lift_def)

lemma emits_bind [intro!]:
  assumes "emits A m" and "\<And>x. emits A (f x)"
  shows "emits A (bind m f)"
proof (rule emitsI)
  fix s
  obtain s1 r where m: "m s = (s1, r)" by (cases "m s")
  from assms(1) m obtain e1 where 1: "mysql_conn s1 = mysql_conn s" "pg_conn s1 = pg_conn s"
    "trace s1 = trace s @ e1" "list_all A e1"
    unfolding emits_def by (metis fst_conv)
  show "mysql_conn (fst (bind m f s)) = mysql_conn s"
    using 1 assms(2) m by (cases r) (auto simp: bind_def emits_def)
  show "pg_conn (fst (bind m f s)) = pg_conn s"
    using 1 assms(2) m by (cases r) (auto simp: bind_def emits_def)
  show "\<exists>evs. trace (fst (bind m f s)) = trace s @ evs \<and> list_all A evs"
  proof (cases r)
    case (Inl e)
    with m 1 show ?thesis by (auto simp: bind_def)
  next
    case (Inr x)
    from assms(2)[of x] obtain e2 where "trace (fst (f x s1)) = trace s1 @ e2" "list_all A e2"
      unfolding emits_def by blast
    with m 1 Inr show ?thesis by (auto simp: bind_def)
  qed
qed

lemma emits_seq [intro!]: "emits A m \<Longrightarrow> emits A k \<Longrightarrow> emits A (seq m k)"
  unfolding seq_def by (rule emits_bind)

lemma emits_try [intro!]:
  assumes "emits A m" and "\<And>e. emits A (h e)"
  shows "emits A (try_except m h)"
proof (rule emitsI)
  fix s
  obtain s1 r where m: "m s = (s1, r)" by (cases "m s")
  from assms(1) m obtain e1 where 1: "mysql_conn s1 = mysql_conn s" "pg_conn s1 = pg_conn s"
    "trace s1 = trace s @ e1" "list_all A e1"
    unfolding emits_def by (metis fst_conv)
  show "mysql_conn (fst (try_except m h s)) = mysql_conn s"
    using 1 assms(2) m by (cases r) (auto simp: try_except_def emits_def)
  show "pg_conn (fst (try_except m h s)) = pg_conn s"
    using 1 assms(2) m by (cases r) (auto simp: try_except_def emits_def)
  show "\<exists>evs. trace (fst (try_except m h s)) = trace s @ evs \<and> list_all A evs"
  proof (cases r)
    case (Inr x)
    with m 1 show ?thesis by (auto simp: try_except_def)
  next
    case (Inl e)
    from assms(2)[of e] obtain e2 where "trace (fst (h e s1)) = trace s1 @ e2" "list_all A e2"
      unfolding emits_def by blast
    with m 1 Inl show ?thesis by (auto simp: try_except_def)
  qed
qed

lemma emits_swallow [intro!]: "emits A m \<Longrightarrow> emits A (swallow m)"
  by (simp add: emits_def swallow_def)

lemma emits_if [intro!]: "emits A m \<Longrightarrow> emits A k \<Longrightarrow> emits A (if b then m else k)"
  by simp

lemma emits_emit [intro!]: "A e \<Longrightarrow> emits A (emit e)"
  by (simp add: emits_def emit_def)

lemma emits_print [intro!]: "A (Print l) \<Longrightarrow> emits A (print l)"
  by (simp add: print_def emits_emit)

lemma emits_ext [intro!]: "A (Ext c) \<Longrightarrow> emits A (ext E c)"
  by (simp add: emits_def ext_def)

lemma emits_mysql_call [intro!]: "A (Ext c) \<Longrightarrow> emits A (mysql_call E c)"
  by (auto simp: emits_def mysql_call_def ext_def split: option.splits)

lemma emits_pg_call [intro!]: "A (Ext c) \<Longrightarrow> emits A (pg_call E c)"
  by (auto simp: emits_def pg_call_def ext_def split: option.splits)

lemma emits_new_uuid [intro!]: "(\<And>n. A (Uuid4 n)) \<Longrightarrow> emits A (new_uuid E)"
  by (simp add: emits_def new_uuid_def)

lemma emits_reg_put [intro!]: "A (RegPut k v) \<Longrightarrow> emits A (reg_put k v)"
  by (simp add: emits_def reg_put_def)

lemma emits_reg_get [intro!]: "A (RegGet k) \<Longrightarrow> emits A (reg_get k)"
  by (simp add: emits_def reg_get_def)

lemma emits_upd_tables [intro!]: "emits A (\<lambda>s. (s\<lparr>pg_tables := f s\<rparr>, r s))"
  by (simp add: emits_def)

lemma emits_upd_committed [intro!]: "emits A (\<lambda>s. (s\<lparr>pg_committed := f s\<rparr>, r s))"
  by (simp add: emits_def)

lemma emits_for_rows [intro!]:
  assumes "\<And>data r. emits A (body data r)"
  shows "emits A (for_rows body rows data)"
  by (induction rows arbitrary: data) (auto intro: assms)

lemma emits_toggle [intro!]:
  assumes "\<And>n t. A (Ext (c n t))"
  shows "emits A (toggle E c n ts)"
  by (induction ts arbitrary: n) (auto intro: assms)

lemma emits_execute_values [intro!]: "A (Ext (ExecuteValues t data)) \<Longrightarrow> emits A (execute_values E t data)"
  unfolding execute_values_def by auto

lemma emits_commit [intro!]: "A (Ext (PgCommit t)) \<Longrightarrow> emits A (commit E t)"
  unfolding commit_def by auto

lemma emits_rollback [intro!]: "A (Ext (PgRollback t)) \<Longrightarrow> emits A (rollback E t)"
  unfolding rollback_def by auto

lemma tag_of_simps [simp]:
  "tag_of (CHR ''e'' # CHR ''m'' # CHR ''p'' # CHR ''_'' # x) = ''emp''"
  "tag_of (CHR ''m'' # CHR ''e'' # CHR ''m'' # CHR ''b'' # CHR ''e'' # CHR ''r'' # CHR ''_'' # x)
     = ''member''"
  "tag_of (CHR ''p'' # CHR ''r'' # CHR ''o'' # CHR ''d'' # CHR ''_'' # x) = ''prod''"
  "tag_of (CHR ''t'' # CHR ''x'' # CHR ''n'' # CHR ''_'' # x) = ''txn''"
  by (simp_all add: tag_of_def)

lemma emits_fetch_source: "emits (body_event t) (fetch_source E t)"
  unfolding fetch_source_def by auto

lemma emits_finish: "emits (body_event t) (finish E t data)"
  unfolding finish_def by auto

lemma emits_steps:
  "emits (body_event Employees) (employee_step E data r)"
  "emits (body_event Customers) (customer_step E data r)"
  "emits (body_event Products) (product_step E data r)"
  "emits (body_event Invoices) (invoice_step E data r)"
  "emits (body_event InvoiceItems) (item_step E data r)"
  unfolding employee_step_def customer_step_def product_step_def invoice_step_def item_step_def
  by auto

lemma emits_transfer_body:
  assumes "\<And>data r. emits (body_event t) (step data r)"
  shows "emits (body_event t) (transfer_body E t step)"
  unfolding transfer_body_def
  by (auto intro: assms emits_fetch_source emits_finish)

lemma emits_items_body: "emits (body_event InvoiceItems) (items_body E)"
  unfolding items_body_def
  by (auto intro: emits_steps emits_fetch_source emits_finish)

section \<open>Running a transfer and the orchestrator\<close>

lemma body_event_transfer: "body_event t e \<Longrightarrow> transfer_event t e"
  by (cases "(t, e)" rule: transfer_event.cases) auto

lemma emits_mono: "emits B m \<Longrightarrow> (\<And>e. B e \<Longrightarrow> A e) \<Longrightarrow> emits A m"
  unfolding emits_def by (metis (mono_tags, lifting) list.pred_mono_strong)

lemma emits_on_error: "emits (transfer_event t) (on_error E t e)"
  unfolding on_error_def by auto

lemma emits_guarded:
  assumes "emits (body_event t) body"
  shows "emits (transfer_event t) (guarded E t body)"
  unfolding guarded_def
  by (intro emits_seq emits_try emits_print emits_on_error
      emits_mono[OF assms body_event_transfer]) simp_all

lemma print_run: "print l s = (s\<lparr>trace := trace s @ [Print l]\<rparr>, Inr ())"
  by (simp add: print_def emit_def)

lemma seq_Inr: "m s = (s', Inr x) \<Longrightarrow> seq m k s = k s'"
  by (simp add: seq_def bind_def)

lemma seq_Inl: "m s = (s', Inl e) \<Longrightarrow> seq m k s = (s', Inl e)"
  by (simp add: seq_def bind_def)

lemma rollback_run:
  "pg_conn s \<noteq> None \<Longrightarrow> rollback E t s =
     (if raises E (PgRollback t)
      then (s\<lparr>trace := trace s @ [Ext (PgRollback t)]\<rparr>, Inl (StoreError (PgRollback t)))
      else (s\<lparr>trace := trace s @ [Ext (PgRollback t)], pg_tables := pg_committed s\<rparr>, Inr ()))"
  by (auto simp: rollback_def seq_def bind_def pg_call_def ext_def)

lemma guarded_raise:
  assumes "body (fst (print (Migrating t) s)) = (s1, Inl e)" and "pg_conn s1 \<noteq> None"
  shows "guarded E t body s =
     (if raises E (PgRollback t)
      then (s1\<lparr>trace := trace s1 @ [Print (MigrateError t e), Ext (PgRollback t)]\<rparr>,
            Inl (StoreError (PgRollback t)))
      else (s1\<lparr>trace := trace s1 @ [Print (MigrateError t e), Ext (PgRollback t)],
               pg_tables := pg_committed s1\<rparr>, Inr ()))"
  using assms
  by (simp add: guarded_def seq_Inr[OF print_run] print_run try_except_def on_error_def
      rollback_run)

lemma guarded_return:
  assumes "body (fst (print (Migrating t) s)) = (s1, Inr ())"
  shows "guarded E t body s = (s1, Inr ())"
  using assms
  by (simp add: guarded_def seq_Inr[OF print_run] print_run try_except_def)

lemma guarded_run:
  assumes em: "emits (body_event t) body" and nr: "\<not> raises E (PgRollback t)"
    and k: "conns_open s"
  shows "\<exists>s' evs. guarded E t body s = (s', Inr ()) \<and> conns_open s' \<and>
     trace s' = trace s @ Print (Migrating t) # evs \<and> list_all (body_event t) evs"
proof -
  let ?s0 = "fst (print (Migrating t) s)"
  obtain s1 r where b: "body ?s0 = (s1, r)" by (cases "body ?s0")
  from em b obtain evs where 1: "mysql_conn s1 = mysql_conn ?s0" "pg_conn s1 = pg_conn ?s0"
    "trace s1 = trace ?s0 @ evs" "list_all (body_event t) evs"
    unfolding emits_def by (metis fst_conv)
  note evs = 1(4)
  show ?thesis
  proof (cases r)
    case (Inr u)
    with b have "guarded E t body s = (s1, Inr ())" by (simp add: guarded_return)
    with 1 k evs show ?thesis by (simp add: print_run conns_open_def)
  next
    case (Inl e)
    have "pg_conn s1 \<noteq> None" using 1 k by (simp add: print_run conns_open_def)
    from guarded_raise[where body = body and t = t and s = s and E = E, OF b[unfolded Inl] this]
      nr 1 k evs show ?thesis
      by (simp add: print_run conns_open_def)
  qed
qed

lemma connect_ok:
  assumes "\<not> raises E MysqlConnect" and "\<not> raises E PgConnect"
  shows "connect E s = (s\<lparr>mysql_conn := Some Handle, pg_conn := Some Handle,
     trace := trace s @ [Ext MysqlConnect, Ext PgConnect, Print ConnectOk]\<rparr>, Inr ())"
  using assms
  by (simp add: connect_def try_except_def seq_def bind_def ext_def print_def emit_def)

lemma connect_fail:
  assumes "raises E MysqlConnect \<or> raises E PgConnect"
  shows "snd (connect E s) = Inl (SystemExit 1)"
  using assms
  by (auto simp: connect_def try_except_def seq_def bind_def ext_def print_def emit_def raise_def)

lemma close_ok:
  assumes "conns_open s" and "\<not> raises E MysqlClose" and "\<not> raises E PgClose"
  shows "close E s = (s\<lparr>trace := trace s @ [Ext MysqlClose, Ext PgClose, Print ClosedMsg]\<rparr>,
     Inr ())"
  using assms
  by (simp add: close_def conns_open_def seq_def bind_def ext_def print_def emit_def)

lemma emits_migrate:
  "emits (transfer_event Employees) (migrate_employees E)"
  "emits (transfer_event Customers) (migrate_customers E)"
  "emits (transfer_event Products) (migrate_products E)"
  "emits (transfer_event Invoices) (migrate_invoices E)"
  "emits (transfer_event InvoiceItems) (migrate_invoice_items E)"
  unfolding migrate_employees_def migrate_customers_def migrate_products_def
    migrate_invoices_def migrate_invoice_items_def
  by (intro emits_guarded emits_transfer_body emits_steps emits_items_body)+

lemma emits_bodies:
  "emits (body_event Employees) (transfer_body E Employees (employee_step E))"
  "emits (body_event Customers) (transfer_body E Customers (customer_step E))"
  "emits (body_event Products) (transfer_body E Products (product_step E))"
  "emits (body_event Invoices) (transfer_body E Invoices (invoice_step E))"
  by (intro emits_transfer_body emits_steps)+

lemma migrate_run:
  assumes "\<And>t. \<not> raises E (PgRollback t)" and "conns_open s"
  shows "\<exists>s' evs. migrate_employees E s = (s', Inr ()) \<and> conns_open s' \<and>
       trace s' = trace s @ Print (Migrating Employees) # evs \<and>
       list_all (body_event Employees) evs"
    and "\<exists>s' evs. migrate_customers E s = (s', Inr ()) \<and> conns_open s' \<and>
       trace s' = trace s @ Print (Migrating Customers) # evs \<and>
       list_all (body_event Customers) evs"
    and "\<exists>s' evs. migrate_products E s = (s', Inr ()) \<and> conns_open s' \<and>
       trace s' = trace s @ Print (Migrating Products) # evs \<and>
       list_all (body_event Products) evs"
    and "\<exists>s' evs. migrate_invoices E s = (s', Inr ()) \<and> conns_open s' \<and>
       trace s' = trace s @ Print (Migrating Invoices) # evs \<and>
       list_all (body_event Invoices) evs"
    and "\<exists>s' evs. migrate_invoice_items E s = (s', Inr ()) \<and> conns_open s' \<and>
       trace s' = trace s @ Print (Migrating InvoiceItems) # evs \<and>
       list_all (body_event InvoiceItems) evs"
  unfolding migrate_employees_def migrate_customers_def migrate_products_def
    migrate_invoices_def migrate_invoice_items_def
  by (rule guarded_run[OF emits_bodies(1) assms] guarded_run[OF emits_bodies(2) assms]
      guarded_run[OF emits_bodies(3) assms] guarded_run[OF emits_bodies(4) assms]
      guarded_run[OF emits_items_body assms])+

lemma seq_apply:
  "seq m k s = (case m s of (s', Inl e) \<Rightarrow> (s', Inl e) | (s', Inr x) \<Rightarrow> k s')"
  by (simp add: seq_def bind_def)

lemma main_ok:
  assumes H: "no_handler_raises E"
  shows "\<exists>s' e1 e2 e3 e4 e5. main E (init db) = (s', Inr ()) \<and>
     trace s' = [Ext MysqlConnect, Ext PgConnect, Print ConnectOk, Print Rule, Print StartBanner,
         Print Rule]
       @ Print (Migrating Employees) # e1 @ Print (Migrating Customers) # e2
       @ Print (Migrating Products) # e3 @ Print (Migrating Invoices) # e4
       @ Print (Migrating InvoiceItems) # e5
       @ [Ext MysqlClose, Ext PgClose, Print ClosedMsg, Print DoneRule, Print DoneBanner,
          Print Rule] \<and>
     list_all (body_event Employees) e1 \<and> list_all (body_event Customers) e2 \<and>
     list_all (body_event Products) e3 \<and> list_all (body_event Invoices) e4 \<and>
     list_all (body_event InvoiceItems) e5"
proof -
  from H have nc: "\<not> raises E MysqlConnect" "\<not> raises E PgConnect"
    and nr: "\<And>t. \<not> raises E (PgRollback t)"
    and ncl: "\<not> raises E MysqlClose" "\<not> raises E PgClose"
    by (simp_all add: no_handler_raises_def)
  define sc where "sc = (init db)\<lparr>mysql_conn := Some Handle, pg_conn := Some Handle,
     trace := [Ext MysqlConnect, Ext PgConnect, Print ConnectOk]\<rparr>"
  define s0 where "s0 = sc\<lparr>trace := trace sc @ [Print Rule, Print StartBanner, Print Rule]\<rparr>"
  have c: "connect E (init db) = (sc, Inr ())"
    using connect_ok[OF nc, of "init db"] by (simp add: sc_def init_def)
  have k0: "conns_open s0" by (simp add: s0_def sc_def conns_open_def)
  have t0: "trace s0 = [Ext MysqlConnect, Ext PgConnect, Print ConnectOk, Print Rule,
      Print StartBanner, Print Rule]"
    by (simp add: s0_def sc_def)
  from migrate_run(1)[OF nr k0] obtain s1 e1 where
    1: "migrate_employees E s0 = (s1, Inr ())" "conns_open s1"
      "trace s1 = trace s0 @ Print (Migrating Employees) # e1"
      "list_all (body_event Employees) e1" by blast
  from migrate_run(2)[OF nr 1(2)] obtain s2 e2 where
    2: "migrate_customers E s1 = (s2, Inr ())" "conns_open s2"
      "trace s2 = trace s1 @ Print (Migrating Customers) # e2"
      "list_all (body_event Customers) e2" by blast
  from migrate_run(3)[OF nr 2(2)] obtain s3 e3 where
    3: "migrate_products E s2 = (s3, Inr ())" "conns_open s3"
      "trace s3 = trace s2 @ Print (Migrating Products) # e3"
      "list_all (body_event Products) e3" by blast
  from migrate_run(4)[OF nr 3(2)] obtain s4 e4 where
    4: "migrate_invoices E s3 = (s4, Inr ())" "conns_open s4"
      "trace s4 = trace s3 @ Print (Migrating Invoices) # e4"
      "list_all (body_event Invoices) e4" by blast
  from migrate_run(5)[OF nr 4(2)] obtain s5 e5 where
    5: "migrate_invoice_items E s4 = (s5, Inr ())" "conns_open s5"
      "trace s5 = trace s4 @ Print (Migrating InvoiceItems) # e5"
      "list_all (body_event InvoiceItems) e5" by blast
  define s6 where "s6 = s5\<lparr>trace := trace s5 @ [Ext MysqlClose, Ext PgClose, Print ClosedMsg]\<rparr>"
  have cl: "close E s5 = (s6, Inr ())"
    using close_ok[OF 5(2) ncl] by (simp add: s6_def)
  define s7 where "s7 = s6\<lparr>trace := trace s6 @ [Print DoneRule, Print DoneBanner, Print Rule]\<rparr>"
  have fin: "seq (print DoneRule) (seq (print DoneBanner) (print Rule)) s6 = (s7, Inr ())"
    by (simp add: s7_def seq_def bind_def print_run)
  have m: "main E (init db) = (s7, Inr ())"
    unfolding main_def
    using fin by (simp add: seq_apply c print_run s0_def[symmetric] 1(1) 2(1) 3(1) 4(1) 5(1) cl)
  have "trace s7 = trace s0 @ Print (Migrating Employees) # e1 @ Print (Migrating Customers) # e2
       @ Print (Migrating Products) # e3 @ Print (Migrating Invoices) # e4
       @ Print (Migrating InvoiceItems) # e5
       @ [Ext MysqlClose, Ext PgClose, Print ClosedMsg, Print DoneRule, Print DoneBanner,
          Print Rule]"
    by (simp add: s7_def s6_def 1 2 3 4 5)
  with m t0 1(4) 2(4) 3(4) 4(4) 5(4) show ?thesis
    by (intro exI[of _ s7] exI[of _ e1] exI[of _ e2] exI[of _ e3] exI[of _ e4] exI[of _ e5]) simp
qed

lemma migrating_append: "migrating (a @ b) = migrating a @ migrating b"
  by (induction a rule: migrating.induct) auto

lemma migrating_body: "list_all (body_event t) evs \<Longrightarrow> migrating evs = []"
  by (induction evs rule: migrating.induct) auto

lemma raises_lost_env: "raises lost_env = on_target"
  by (simp add: lost_env_def demo_env_def)

lemma lost_run:
  "main lost_env (init empty_db) =
     ((init empty_db)\<lparr>mysql_conn := Some Handle, pg_conn := Some Handle, trace := lost_trace\<rparr>,
      Inl (StoreError (PgRollback Employees)))"
proof -
  have r: "raises lost_env = on_target" by (simp add: lost_env_def demo_env_def)
  define sc where "sc = (init empty_db)\<lparr>mysql_conn := Some Handle, pg_conn := Some Handle,
     trace := [Ext MysqlConnect, Ext PgConnect, Print ConnectOk]\<rparr>"
  define s0 where "s0 = sc\<lparr>trace := trace sc @ [Print Rule, Print StartBanner, Print Rule]\<rparr>"
  have c: "connect lost_env (init empty_db) = (sc, Inr ())"
    using connect_ok[of lost_env "init empty_db"] by (simp add: sc_def init_def r)
  define s1 where "s1 = s0\<lparr>trace := trace s0 @ [Print (Migrating Employees),
     Ext (MysqlCursor Employees), Ext (MysqlExecute Employees), Ext (MysqlFetchall Employees),
     Ext (PgCursor Employees)]\<rparr>"
  have b: "transfer_body lost_env Employees (employee_step lost_env)
      (fst (print (Migrating Employees) s0)) = (s1, Inl (StoreError (PgCursor Employees)))"
    by (simp add: transfer_body_def fetch_source_def bind_def seq_apply mysql_call_def
        pg_call_def ext_def r print_run s1_def s0_def sc_def)
  have "pg_conn s1 \<noteq> None" by (simp add: s1_def s0_def sc_def)
  from guarded_raise[where E = lost_env and t = Employees and s = s0
      and body = "transfer_body lost_env Employees (employee_step lost_env)", OF b this]
  have e: "migrate_employees lost_env s0 =
     (s1\<lparr>trace := trace s1 @ [Print (MigrateError Employees (StoreError (PgCursor Employees))),
        Ext (PgRollback Employees)]\<rparr>, Inl (StoreError (PgRollback Employees)))"
    by (simp add: migrate_employees_def r)
  show ?thesis
    unfolding main_def
    by (simp add: seq_apply c print_run s0_def[symmetric] e)
      (simp add: s1_def s0_def sc_def lost_trace_def)
qed

lemma stable_ret [intro!, simp]: "stable I (ret x)"
  by (simp add: stable_def ret_def)

lemma stable_raise [intro!, simp]: "stable I (raise e)"
  by (simp add: stable_def raise_def)

lemma stable_lift [intro!, simp]: "stable I (lift r)"
  by (simp add: stable_def lift_def)

lemma stable_bind [intro!]:
  assumes "stable I m" and "\<And>x. stable I (f x)"
  shows "stable I (bind m f)"
  unfolding stable_def
proof (intro allI impI)
  fix s assume "I s"
  obtain s1 r where m: "m s = (s1, r)" by (cases "m s")
  with assms(1) \<open>I s\<close> have "I s1" unfolding stable_def by (metis fst_conv)
  with assms(2) m show "I (fst (bind m f s))"
    by (cases r) (auto simp: bind_def stable_def)
qed

lemma stable_seq [intro!]: "stable I m \<Longrightarrow> stable I k \<Longrightarrow> stable I (seq m k)"
  unfolding seq_def by (rule stable_bind)

lemma stable_try [intro!]:
  assumes "stable I m" and "\<And>e. stable I (h e)"
  shows "stable I (try_except m h)"
  unfolding stable_def
proof (intro allI impI)
  fix s assume "I s"
  obtain s1 r where m: "m s = (s1, r)" by (cases "m s")
  with assms(1) \<open>I s\<close> have "I s1" unfolding stable_def by (metis fst_conv)
  with assms(2) m show "I (fst (try_except m h s))"
    by (cases r) (auto simp: try_except_def stable_def)
qed

lemma stable_swallow [intro!]: "stable I m \<Longrightarrow> stable I (swallow m)"
  by (simp add: stable_def swallow_def)

lemma stable_if [intro!]: "stable I m \<Longrightarrow> stable I k \<Longrightarrow> stable I (if b then m else k)"
  by simp

lemma stable_for_rows [intro!]:
  assumes "\<And>data r. stable I (body data r)"
  shows "stable I (for_rows body rows data)"
  by (induction rows arbitrary: data) (auto intro: assms)

lemma stable_toggle [intro!]:
  assumes "\<And>n t. stable I (ext E (c n t))"
  shows "stable I (toggle E c n ts)"
  by (induction ts arbitrary: n) (auto intro: assms)

lemma stored_append [simp]: "stored (a @ b) = stored a @ stored b"
  by (induction a rule: stored.induct) simp_all

lemma draws_append [simp]: "draws (a @ b) = draws a @ draws b"
  by (induction a rule: draws.induct) simp_all

lemma registry_after_append [simp]:
  "registry_after m (a @ b) = registry_after (registry_after m a) b"
proof (induction a arbitrary: m)
  case Nil
  show ?case by simp
next
  case (Cons e a)
  then show ?case by (cases e) (simp_all add: fun_upd_def)
qed

lemma reg_stable_emit: "(\<And>k v. e \<noteq> RegPut k v) \<Longrightarrow> (\<And>n. e \<noteq> Uuid4 n) \<Longrightarrow> stable (registry_inv E) (emit e)"
  by (cases e) (auto simp: stable_def emit_def registry_inv_def)

lemma reg_stable_print [intro!]: "stable (registry_inv E) (print l)"
  by (simp add: print_def reg_stable_emit)

lemma reg_stable_ext [intro!]: "stable (registry_inv E) (ext E' c)"
  by (auto simp: stable_def ext_def registry_inv_def)

lemma reg_stable_mysql_call [intro!]: "stable (registry_inv E) (mysql_call E' c)"
  by (auto simp: stable_def mysql_call_def ext_def registry_inv_def split: option.splits)

lemma reg_stable_pg_call [intro!]: "stable (registry_inv E) (pg_call E' c)"
  by (auto simp: stable_def pg_call_def ext_def registry_inv_def split: option.splits)

lemma reg_stable_reg_get [intro!]: "stable (registry_inv E) (reg_get k)"
  by (auto simp: stable_def reg_get_def registry_inv_def)

lemma reg_stable_tables [intro!]: "stable (registry_inv E) (\<lambda>s. (s\<lparr>pg_tables := f s\<rparr>, r s))"
  by (auto simp: stable_def registry_inv_def)

lemma reg_stable_committed [intro!]: "stable (registry_inv E) (\<lambda>s. (s\<lparr>pg_committed := f s\<rparr>, r s))"
  by (auto simp: stable_def registry_inv_def)

lemma reg_stable_conn [intro!]:
  "stable (registry_inv E) (\<lambda>s. (s\<lparr>mysql_conn := f s\<rparr>, r s))"
  "stable (registry_inv E) (\<lambda>s. (s\<lparr>pg_conn := g s\<rparr>, r s))"
  by (auto simp: stable_def registry_inv_def)

lemma reg_stable_draw:
  assumes "inj (uuid4 E)" and "\<And>u. leads (fresh_inv E u) (f u) (registry_inv E)"
  shows "stable (registry_inv E) (bind (new_uuid E) f)"
  unfolding stable_def
proof (intro allI impI)
  fix s assume I: "registry_inv E s"
  let ?c = "uuid_count s"
  let ?s1 = "s\<lparr>uuid_count := Suc ?c, trace := trace s @ [Uuid4 ?c]\<rparr>"
  have "uuid4 E ?c \<notin> set (stored (trace s))"
  proof
    assume "uuid4 E ?c \<in> set (stored (trace s))"
    with I obtain n where "n < ?c" "uuid4 E n = uuid4 E ?c"
      unfolding registry_inv_def by auto
    with assms(1) show False by (auto dest: injD)
  qed
  with I have "fresh_inv E (uuid4 E ?c) ?s1"
    by (auto simp: fresh_inv_def registry_inv_def)
  with assms(2)[of "uuid4 E ?c"] have "registry_inv E (fst (f (uuid4 E ?c) ?s1))"
    unfolding leads_def by blast
  then show "registry_inv E (fst (bind (new_uuid E) f s))"
    by (simp add: bind_def new_uuid_def)
qed

lemma fresh_lift_bind [intro!]:
  assumes "\<And>x. leads (fresh_inv E u) (f x) (registry_inv E)"
  shows "leads (fresh_inv E u) (bind (lift r) f) (registry_inv E)"
  using assms by (cases r) (auto simp: leads_def bind_def lift_def fresh_inv_def)

lemma fresh_get_bind [intro!]:
  assumes "\<And>x. leads (fresh_inv E u) (f x) (registry_inv E)"
  shows "leads (fresh_inv E u) (bind (reg_get k) f) (registry_inv E)"
  unfolding leads_def
proof (intro allI impI)
  fix s assume "fresh_inv E u s"
  then have "fresh_inv E u (s\<lparr>trace := trace s @ [RegGet k]\<rparr>)"
    by (auto simp: fresh_inv_def registry_inv_def)
  with assms show "registry_inv E (fst (bind (reg_get k) f s))"
    by (simp add: leads_def bind_def reg_get_def)
qed

lemma fresh_put [intro!]:
  assumes "stable (registry_inv E) k"
  shows "leads (fresh_inv E u) (seq (reg_put key u) k) (registry_inv E)"
  unfolding leads_def
proof (intro allI impI)
  fix s assume "fresh_inv E u s"
  then have "registry_inv E (s\<lparr>migrated_records := (migrated_records s)(key \<mapsto> u),
      trace := trace s @ [RegPut key u]\<rparr>)"
    by (auto simp: fresh_inv_def registry_inv_def)
  with assms show "registry_inv E (fst (seq (reg_put key u) k s))"
    by (simp add: stable_def seq_def bind_def reg_put_def)
qed

lemma fresh_ret [intro!]: "leads (fresh_inv E u) (ret x) (registry_inv E)"
  by (simp add: leads_def ret_def fresh_inv_def)

lemma fresh_if [intro!]:
  "leads P m Q \<Longrightarrow> leads P k Q \<Longrightarrow> leads P (if b then m else k) Q"
  by simp

lemma reg_stable_new_uuid: "stable (registry_inv E) (new_uuid E)"
  by (auto simp: stable_def new_uuid_def registry_inv_def)

lemma reg_stable_steps:
  assumes "inj (uuid4 E)"
  shows "stable (registry_inv E) (employee_step E data r)"
    and "stable (registry_inv E) (customer_step E data r)"
    and "stable (registry_inv E) (product_step E data r)"
    and "stable (registry_inv E) (invoice_step E data r)"
    and "stable (registry_inv E) (item_step E data r)"
  unfolding employee_step_def customer_step_def product_step_def invoice_step_def item_step_def
  by (intro reg_stable_draw[OF assms] fresh_lift_bind fresh_get_bind fresh_put fresh_ret fresh_if
      stable_ret stable_bind stable_lift reg_stable_reg_get reg_stable_new_uuid stable_if)+

lemma reg_stable_fetch: "stable (registry_inv E) (fetch_source E t)"
  unfolding fetch_source_def by auto

lemma reg_stable_finish: "stable (registry_inv E) (finish E t data)"
  unfolding finish_def commit_def by auto

lemma reg_stable_execute_values: "stable (registry_inv E) (execute_values E t data)"
  unfolding execute_values_def by auto

lemma reg_stable_guarded:
  assumes "stable (registry_inv E) body"
  shows "stable (registry_inv E) (guarded E t body)"
  unfolding guarded_def on_error_def rollback_def using assms by auto

lemma reg_stable_migrate:
  assumes "inj (uuid4 E)"
  shows "stable (registry_inv E) (migrate_employees E)"
    and "stable (registry_inv E) (migrate_customers E)"
    and "stable (registry_inv E) (migrate_products E)"
    and "stable (registry_inv E) (migrate_invoices E)"
    and "stable (registry_inv E) (migrate_invoice_items E)"
  unfolding migrate_employees_def migrate_customers_def migrate_products_def
    migrate_invoices_def migrate_invoice_items_def transfer_body_def items_body_def
  by (intro reg_stable_guarded stable_bind stable_seq stable_for_rows stable_toggle stable_if
      stable_ret reg_stable_steps[OF assms] reg_stable_fetch reg_stable_finish
      reg_stable_execute_values reg_stable_ext)+

lemma reg_stable_connect: "stable (registry_inv E) (connect E)"
  unfolding connect_def by auto

lemma reg_stable_close: "stable (registry_inv E) (close E)"
  unfolding close_def
  by (intro stable_seq reg_stable_print) (auto simp: stable_def ext_def registry_inv_def)

lemma reg_stable_main:
  assumes "inj (uuid4 E)"
  shows "stable (registry_inv E) (main E)"
  unfolding main_def
  by (intro stable_seq reg_stable_migrate[OF assms] reg_stable_connect reg_stable_close
      reg_stable_print)

lemma registry_inv_init: "registry_inv E (init db)"
  by (simp add: registry_inv_def init_def)

text \<open>From distinct stored identifiers to an injective registry.\<close>

lemma upd_fold: "(\<lambda>a. if a = k then v else f a) = f(k := v)"
  by (simp add: fun_upd_def)

lemma ran_upd_subset: "ran (f(k \<mapsto> v)) \<subseteq> insert v (ran f)"
  by (auto simp: ran_def)

lemma inj_on_upd_fresh:
  assumes "inj_on f (dom f)" and "v \<notin> ran f"
  shows "inj_on (f(k \<mapsto> v)) (dom (f(k \<mapsto> v)))"
  unfolding inj_on_def
proof (intro ballI impI)
  fix x y
  assume xy: "x \<in> dom (f(k \<mapsto> v))" "y \<in> dom (f(k \<mapsto> v))" "(f(k \<mapsto> v)) x = (f(k \<mapsto> v)) y"
  show "x = y"
  proof (cases "x = k \<or> y = k")
    case True
    with xy assms(2) show ?thesis
      by (auto simp: ran_def split: if_splits)
  next
    case False
    with xy assms(1) show ?thesis
      by (auto simp: inj_on_def dom_def)
  qed
qed

lemma registry_after_ran:
  "ran (registry_after m tr) \<subseteq> ran m \<union> set (stored tr)"
proof (induction tr rule: rev_induct)
  case Nil
  show ?case by simp
next
  case (snoc e tr)
  show ?case
  proof (cases e)
    case (RegPut k v)
    with snoc ran_upd_subset[of "registry_after m tr" k v] show ?thesis
      by (auto simp: upd_fold)
  qed (use snoc in auto)
qed

lemma registry_after_inj:
  assumes "distinct (stored tr)" and "inj_on m (dom m)" and "ran m \<inter> set (stored tr) = {}"
  shows "inj_on (registry_after m tr) (dom (registry_after m tr))"
  using assms(1,3)
proof (induction tr rule: rev_induct)
  case Nil
  show ?case using assms(2) by simp
next
  case (snoc e tr)
  show ?case
  proof (cases e)
    case (RegPut k v)
    from snoc.prems RegPut have d: "distinct (stored tr)" "v \<notin> set (stored tr)"
      "ran m \<inter> set (stored tr) = {}" "v \<notin> ran m"
      by auto
    from registry_after_ran[of m tr] d have "v \<notin> ran (registry_after m tr)" by auto
    from inj_on_upd_fresh[OF snoc.IH[OF d(1,3)] this, of k] RegPut show ?thesis
      by (simp add: upd_fold del: inj_on_fun_updI)
  qed (use snoc in auto)
qed

lemma stored_take: "distinct (stored tr) \<Longrightarrow> distinct (stored (take n tr))"
proof -
  assume d: "distinct (stored tr)"
  have "stored tr = stored (take n tr) @ stored (drop n tr)"
    by (metis append_take_drop_id stored_append)
  with d show ?thesis by (metis distinct_append)
qed

lemma inj_demo_uuid4: "inj (uuid4 demo_env)"
proof (rule inj_on_inverseI)
  fix n :: nat
  show "(\<lambda>u. length u - 1) (uuid4 demo_env n) = n"
    by (simp add: demo_env_def)
qed

lemma looked_up_append [simp]: "looked_up (a @ b) = looked_up a \<union> looked_up b"
  by (induction a rule: looked_up.induct) auto

lemma lookups_after_stores_append:
  "lookups_after_stores S (a @ b) =
     (lookups_after_stores S a \<and> lookups_after_stores (S \<union> looked_up a) b)"
  by (induction S a rule: lookups_after_stores.induct) auto

lemma ok_events_ordered:
  assumes "list_all (ok_event G) evs" and "S \<subseteq> G"
  shows "lookups_after_stores S evs \<and> looked_up evs \<subseteq> G"
  using assms
proof (induction evs arbitrary: S)
  case Nil
  show ?case by simp
next
  case (Cons e evs)
  then show ?case by (cases e) auto
qed

lemma leads_seq:
  assumes "leads P m R" and "leads R k Q" and "\<And>s. R s \<Longrightarrow> Q s"
  shows "leads P (seq m k) Q"
  unfolding leads_def
proof (intro allI impI)
  fix s assume "P s"
  obtain s1 r where m: "m s = (s1, r)" by (cases "m s")
  with assms(1) \<open>P s\<close> have "R s1" unfolding leads_def by (metis fst_conv)
  with assms(2,3) m show "Q (fst (seq m k s))"
    by (cases r) (auto simp: seq_def bind_def leads_def)
qed

lemma leads_ordered_trace:
  assumes "\<And>s. \<exists>evs. trace (fst (m s)) = trace s @ evs \<and> list_all (ok_event G') evs"
    and "G \<subseteq> G'"
  shows "leads (ordered_upto G) m (ordered_upto G')"
  unfolding leads_def
proof (intro allI impI)
  fix s assume o: "ordered_upto G s"
  from assms(1) obtain evs where t: "trace (fst (m s)) = trace s @ evs"
    and "list_all (ok_event G') evs"
    by blast
  from ok_events_ordered[OF this(2), of "looked_up (trace s)"] o assms(2)
  have "lookups_after_stores (looked_up (trace s)) evs" "looked_up evs \<subseteq> G'"
    by (auto simp: ordered_upto_def)
  with o t assms(2) show "ordered_upto G' (fst (m s))"
    by (auto simp: ordered_upto_def lookups_after_stores_append)
qed

lemma leads_ordered:
  assumes "emits A m" and "\<And>e. A e \<Longrightarrow> ok_event G' e" and "G \<subseteq> G'"
  shows "leads (ordered_upto G) m (ordered_upto G')"
proof (rule leads_ordered_trace[OF _ assms(3)])
  fix s
  from assms(1) obtain evs where "trace (fst (m s)) = trace s @ evs" and "list_all A evs"
    unfolding emits_def by blast
  with assms(2) show "\<exists>evs. trace (fst (m s)) = trace s @ evs \<and> list_all (ok_event G') evs"
    by (auto simp: list_all_iff)
qed

lemma ordered_mono: "ordered_upto G s \<Longrightarrow> G \<subseteq> G' \<Longrightarrow> ordered_upto G' s"
  by (auto simp: ordered_upto_def)

lemma transfer_event_ok:
  "transfer_event Employees e \<Longrightarrow> ok_event {} e"
  "transfer_event Customers e \<Longrightarrow> ok_event {} e"
  "transfer_event Products e \<Longrightarrow> ok_event {} e"
  "transfer_event Invoices e \<Longrightarrow> ok_event {''member''} e"
  "transfer_event InvoiceItems e \<Longrightarrow> ok_event {''member'', ''txn'', ''prod''} e"
  by (cases e; simp)+

lemma connect_appends:
  "\<exists>evs. trace (fst (connect E s)) = trace s @ evs \<and> list_all (ok_event G) evs"
  by (auto simp: connect_def try_except_def seq_def bind_def ext_def print_def emit_def
      raise_def)

lemma emits_close: "emits (ok_event G) (close E)"
  unfolding close_def
  by (intro emits_seq emits_print) (auto simp: emits_def ext_def)

lemma leads_ordered_main:
  "leads (ordered_upto {}) (main E) (ordered_upto {''member'', ''txn'', ''prod''})"
proof -
  let ?G1 = "{''member''}" and ?G2 = "{''member'', ''txn'', ''prod''}"
  let ?Q = "ordered_upto ?G2"
  have up: "ordered_upto {} s \<Longrightarrow> ?Q s" "ordered_upto ?G1 s \<Longrightarrow> ?Q s" for s
    by (auto intro: ordered_mono)
  have pr: "leads (ordered_upto G) (print l) (ordered_upto G)" for G l
    by (rule leads_ordered[where A = "ok_event G"]) (auto intro: emits_print)
  have tail: "leads ?Q (seq (close E) (seq (print DoneRule) (seq (print DoneBanner) (print Rule))))
     ?Q"
    by (intro leads_seq[where R = ?Q] pr leads_ordered[OF emits_close]) auto
  have items: "leads (ordered_upto ?G1) (migrate_invoice_items E) ?Q"
    by (rule leads_ordered[OF emits_migrate(5) transfer_event_ok(5)]) auto
  have inv: "leads (ordered_upto {}) (migrate_invoices E) (ordered_upto ?G1)"
    by (rule leads_ordered[OF emits_migrate(4) transfer_event_ok(4)]) auto
  have emp: "leads (ordered_upto {}) (migrate_employees E) (ordered_upto {})"
    by (rule leads_ordered[OF emits_migrate(1) transfer_event_ok(1)]) auto
  have cust: "leads (ordered_upto {}) (migrate_customers E) (ordered_upto {})"
    by (rule leads_ordered[OF emits_migrate(2) transfer_event_ok(2)]) auto
  have prod: "leads (ordered_upto {}) (migrate_products E) (ordered_upto {})"
    by (rule leads_ordered[OF emits_migrate(3) transfer_event_ok(3)]) auto
  have con: "leads (ordered_upto {}) (connect E) (ordered_upto {})"
    by (rule leads_ordered_trace[OF connect_appends]) simp
  have 5: "leads (ordered_upto ?G1) (seq (migrate_invoice_items E)
      (seq (close E) (seq (print DoneRule) (seq (print DoneBanner) (print Rule))))) ?Q"
    by (rule leads_seq[OF items tail])
  have 4: "leads (ordered_upto {}) (seq (migrate_invoices E) (seq (migrate_invoice_items E)
      (seq (close E) (seq (print DoneRule) (seq (print DoneBanner) (print Rule)))))) ?Q"
    by (rule leads_seq[OF inv 5 up(2)])
  show ?thesis
    unfolding main_def
    by (intro leads_seq[where R = "ordered_upto {}", OF _ _ up(1)] con pr emp cust prod 4)
qed

lemma draws_stable_print [intro!]: "stable draws_inv (print l)"
  by (simp add: stable_def print_def emit_def draws_inv_def)

lemma draws_stable_ext [intro!]: "stable draws_inv (ext E c)"
  by (simp add: stable_def ext_def draws_inv_def)

lemma draws_stable_mysql_call [intro!]: "stable draws_inv (mysql_call E c)"
  by (auto simp: stable_def mysql_call_def ext_def draws_inv_def split: option.splits)

lemma draws_stable_pg_call [intro!]: "stable draws_inv (pg_call E c)"
  by (auto simp: stable_def pg_call_def ext_def draws_inv_def split: option.splits)

lemma draws_stable_reg_get [intro!]: "stable draws_inv (reg_get k)"
  by (simp add: stable_def reg_get_def draws_inv_def)

lemma draws_stable_reg_put [intro!]: "stable draws_inv (reg_put k v)"
  by (simp add: stable_def reg_put_def draws_inv_def)

lemma draws_stable_new_uuid [intro!]: "stable draws_inv (new_uuid E)"
  by (simp add: stable_def new_uuid_def draws_inv_def)

lemma draws_stable_upd [intro!]:
  "stable draws_inv (\<lambda>s. (s\<lparr>pg_tables := f s\<rparr>, r s))"
  "stable draws_inv (\<lambda>s. (s\<lparr>pg_committed := g s\<rparr>, r s))"
  "stable draws_inv (\<lambda>s. (s\<lparr>mysql_conn := h s\<rparr>, r s))"
  "stable draws_inv (\<lambda>s. (s\<lparr>pg_conn := h s\<rparr>, r s))"
  by (simp_all add: stable_def draws_inv_def)

lemma draws_stable_main: "stable draws_inv (main E)"
proof -
  have steps: "stable draws_inv (employee_step E data r)"
    "stable draws_inv (customer_step E data r)" "stable draws_inv (product_step E data r)"
    "stable draws_inv (invoice_step E data r)" "stable draws_inv (item_step E data r)"
    for data r
    unfolding employee_step_def customer_step_def product_step_def invoice_step_def
      item_step_def
    by auto
  have cl: "stable draws_inv (close E)"
    unfolding close_def
    by (intro stable_seq draws_stable_print) (auto simp: stable_def ext_def draws_inv_def)
  show ?thesis
    unfolding main_def migrate_employees_def migrate_customers_def migrate_products_def
      migrate_invoices_def migrate_invoice_items_def transfer_body_def items_body_def
      guarded_def on_error_def rollback_def fetch_source_def finish_def commit_def
      execute_values_def connect_def
    by (intro stable_seq stable_bind stable_try stable_for_rows stable_toggle stable_if
        stable_ret stable_raise steps cl draws_stable_print draws_stable_ext
        draws_stable_mysql_call draws_stable_pg_call draws_stable_upd)
qed

lemma below_ten:
  "(d::nat) < 10 \<Longrightarrow>
     d = 0 \<or> d = 1 \<or> d = 2 \<or> d = 3 \<or> d = 4 \<or> d = 5 \<or> d = 6 \<or> d = 7 \<or> d = 8 \<or> d = 9"
  by arith

lemma digit_val: "d < 10 \<Longrightarrow> of_char (digit d) - 48 = d"
  by (drule below_ten) (auto simp: digit_def)

lemma digit_not_minus: "d < 10 \<Longrightarrow> digit d \<noteq> CHR ''-''"
  by (drule below_ten) (auto simp: digit_def)

lemma nat_of_str_snoc: "nat_of_str (s @ [c]) = 10 * nat_of_str s + (of_char c - 48)"
  by (simp add: nat_of_str_def)

lemma nat_of_str_nat: "nat_of_str (str_nat n) = n"
proof (induction n rule: str_nat.induct)
  case (1 n)
  show ?case
  proof (cases "n < 10")
    case True
    then show ?thesis
      by (subst str_nat.simps) (simp add: nat_of_str_def digit_val)
  next
    case False
    with 1 have "nat_of_str (str_nat (n div 10)) = n div 10" by simp
    with False show ?thesis
      by (subst str_nat.simps) (simp add: nat_of_str_snoc digit_val)
  qed
qed

lemma str_nat_no_minus: "CHR ''-'' \<notin> set (str_nat n)"
proof (induction n rule: str_nat.induct)
  case (1 n)
  show ?case
  proof (cases "n < 10")
    case True
    then show ?thesis
      using digit_not_minus[of n] by (subst str_nat.simps) auto
  next
    case False
    with 1 have "CHR ''-'' \<notin> set (str_nat (n div 10))" by simp
    with False show ?thesis
      using digit_not_minus[of "n mod 10"] by (subst str_nat.simps) auto
  qed
qed

lemma str_nat_nonempty: "str_nat n \<noteq> []"
  by (subst str_nat.simps) simp

lemma str_nat_inj: "str_nat a = str_nat b \<Longrightarrow> a = b"
  by (metis nat_of_str_nat)

lemma str_int_inj: "str_int i = str_int j \<Longrightarrow> i = j"
proof -
  assume e: "str_int i = str_int j"
  have hd: "hd (str_nat n) \<noteq> CHR ''-''" for n
    using str_nat_no_minus[of n] str_nat_nonempty[of n] by (cases "str_nat n") auto
  show ?thesis
  proof (cases "i < 0"; cases "j < 0")
    assume "i < 0" "j < 0"
    with e have "nat (- i) = nat (- j)" by (simp add: str_int_def str_nat_inj)
    with \<open>i < 0\<close> \<open>j < 0\<close> show ?thesis by simp
  next
    assume "i < 0" "\<not> j < 0"
    with e have "CHR ''-'' # str_nat (nat (- i)) = str_nat (nat j)" by (simp add: str_int_def)
    then have "hd (str_nat (nat j)) = CHR ''-''" by (metis list.sel(1))
    with hd[of "nat j"] show ?thesis by simp
  next
    assume "\<not> i < 0" "j < 0"
    with e have "str_nat (nat i) = CHR ''-'' # str_nat (nat (- j))" by (simp add: str_int_def)
    then have "hd (str_nat (nat i)) = CHR ''-''" by (metis list.sel(1))
    with hd[of "nat i"] show ?thesis by simp
  next
    assume "\<not> i < 0" "\<not> j < 0"
    with e have "nat i = nat j" by (simp add: str_int_def str_nat_inj)
    with \<open>\<not> i < 0\<close> \<open>\<not> j < 0\<close> show ?thesis by simp
  qed
qed

lemma steps_plain:
  "employee_step E = plain_step E employee_tuple ''id_karyawan'' ''emp_''"
  "customer_step E = plain_step E customer_tuple ''id_member'' ''member_''"
  "product_step E = plain_step E (product_tuple E) ''id_product'' ''prod_''"
  by (simp_all add: fun_eq_iff employee_step_def customer_step_def product_step_def
      plain_step_def)

lemma plain_step_run:
  assumes "mk (uuid4 E (uuid_count s)) r = Inr t" and "r idcol = Some i"
  shows "plain_step E mk idcol prefix data r s =
     (s\<lparr>uuid_count := Suc (uuid_count s),
        migrated_records := (migrated_records s)(row_key E prefix idcol r \<mapsto>
          uuid4 E (uuid_count s)),
        trace := trace s @ [Uuid4 (uuid_count s),
          RegPut (row_key E prefix idcol r) (uuid4 E (uuid_count s))]\<rparr>,
      Inr (data @ [t]))"
  using assms
  by (simp add: plain_step_def bind_def seq_def new_uuid_def lift_def getitem_def reg_put_def
      ret_def row_key_def)

lemma row_key_inj:
  assumes "r idcol = Some (PInt i)" and "r' idcol = Some (PInt j)"
    and "row_key E prefix idcol r = row_key E prefix idcol r'"
  shows "r idcol = r' idcol"
  using assms by (auto simp: row_key_def dest: str_int_inj)

lemma plain_loop:
  assumes "plain_rows mk idcol rows"
  shows "\<exists>s' ts. for_rows (plain_step E mk idcol prefix) rows data s = (s', Inr (data @ ts)) \<and>
     length ts = length rows \<and> uuid_count s' = uuid_count s + length rows \<and>
     (\<forall>j < length rows. mk (uuid4 E (uuid_count s + j)) (rows ! j) = Inr (ts ! j)) \<and>
     (\<forall>j < length rows. migrated_records s' (row_key E prefix idcol (rows ! j)) =
        Some (uuid4 E (uuid_count s + j))) \<and>
     (\<forall>k. k \<notin> row_key E prefix idcol ` set rows \<longrightarrow>
        migrated_records s' k = migrated_records s k) \<and>
     mysql_conn s' = mysql_conn s \<and> pg_conn s' = pg_conn s \<and>
     pg_tables s' = pg_tables s \<and> pg_committed s' = pg_committed s \<and>
     (\<exists>evs. trace s' = trace s @ evs \<and> (\<forall>c. Ext c \<notin> set evs))"
  using assms
proof (induction rows arbitrary: data s)
  case Nil
  show ?case by (simp add: ret_def)
next
  case (Cons r rows)
  let ?c = "uuid_count s"
  let ?k = "row_key E prefix idcol r"
  let ?s1 = "s\<lparr>uuid_count := Suc ?c,
        migrated_records := (migrated_records s)(?k \<mapsto> uuid4 E ?c),
        trace := trace s @ [Uuid4 ?c, RegPut ?k (uuid4 E ?c)]\<rparr>"
  from Cons.prems obtain t i where t: "mk (uuid4 E ?c) r = Inr t" and i: "r idcol = Some (PInt i)"
    unfolding plain_rows_def by (metis list.set_intros(1))
  from Cons.prems have pr: "plain_rows mk idcol rows"
    by (simp add: plain_rows_def)
  have fresh: "?k \<notin> row_key E prefix idcol ` set rows"
  proof
    assume "?k \<in> row_key E prefix idcol ` set rows"
    then obtain r' where r': "r' \<in> set rows" "?k = row_key E prefix idcol r'" by blast
    with Cons.prems obtain j where "r' idcol = Some (PInt j)"
      unfolding plain_rows_def by (metis list.set_intros(2))
    from row_key_inj[OF i this r'(2)] r'(1) Cons.prems show False
      by (auto simp: plain_rows_def)
  qed
  have step: "plain_step E mk idcol prefix data r s = (?s1, Inr (data @ [t]))"
    using t i by (rule plain_step_run[where mk = mk and E = E and s = s and r = r])
  from Cons.IH[OF pr, of "data @ [t]" ?s1] obtain s' ts where
    run: "for_rows (plain_step E mk idcol prefix) rows (data @ [t]) ?s1 = (s', Inr ((data @ [t]) @ ts))"
    and len: "length ts = length rows" and cnt: "uuid_count s' = uuid_count ?s1 + length rows"
    and tup: "\<forall>j < length rows. mk (uuid4 E (uuid_count ?s1 + j)) (rows ! j) = Inr (ts ! j)"
    and reg: "\<forall>j < length rows. migrated_records s' (row_key E prefix idcol (rows ! j)) =
        Some (uuid4 E (uuid_count ?s1 + j))"
    and frame: "\<forall>k. k \<notin> row_key E prefix idcol ` set rows \<longrightarrow>
        migrated_records s' k = migrated_records ?s1 k"
    and rest: "mysql_conn s' = mysql_conn ?s1" "pg_conn s' = pg_conn ?s1"
      "pg_tables s' = pg_tables ?s1" "pg_committed s' = pg_committed ?s1"
    and tr: "\<exists>evs. trace s' = trace ?s1 @ evs \<and> (\<forall>c. Ext c \<notin> set evs)"
    by blast
  have 1: "for_rows (plain_step E mk idcol prefix) (r # rows) data s = (s', Inr (data @ t # ts))"
    using step run by (simp add: bind_def)
  have 2: "\<forall>j < length (r # rows). mk (uuid4 E (?c + j)) ((r # rows) ! j) = Inr ((t # ts) ! j)"
  proof (intro allI impI)
    fix j assume "j < length (r # rows)"
    then show "mk (uuid4 E (?c + j)) ((r # rows) ! j) = Inr ((t # ts) ! j)"
      using t tup by (cases j) auto
  qed
  have 3: "\<forall>j < length (r # rows). migrated_records s' (row_key E prefix idcol ((r # rows) ! j)) =
        Some (uuid4 E (?c + j))"
  proof (intro allI impI)
    fix j assume "j < length (r # rows)"
    then show "migrated_records s' (row_key E prefix idcol ((r # rows) ! j)) =
        Some (uuid4 E (?c + j))"
      using reg frame fresh by (cases j) auto
  qed
  have 4: "\<forall>k. k \<notin> row_key E prefix idcol ` set (r # rows) \<longrightarrow>
        migrated_records s' k = migrated_records s k"
    using frame by auto
  from tr obtain evs where "trace s' = trace ?s1 @ evs" "\<forall>c. Ext c \<notin> set evs" by blast
  then have 5: "\<exists>evs. trace s' = trace s @ evs \<and> (\<forall>c. Ext c \<notin> set evs)"
    by (intro exI[of _ "[Uuid4 ?c, RegPut ?k (uuid4 E ?c)] @ evs"]) auto
  from 1 2 3 4 5 len cnt rest show ?case
    by (intro exI[of _ s'] exI[of _ "t # ts"]) simp
qed

lemma fetch_run:
  assumes "conns_open s" and "fetch_ok E t"
  shows "fetch_source E t s =
     (s\<lparr>trace := trace s @ [Ext (MysqlCursor t), Ext (MysqlExecute t), Ext (MysqlFetchall t),
        Ext (PgCursor t)]\<rparr>, Inr (source E t))"
  using assms
  by (auto simp: fetch_source_def fetch_ok_def conns_open_def seq_def bind_def mysql_call_def
      pg_call_def ext_def ret_def)

text \<open>What follows the loop: the insert, the commit, the count, the cursor's close.\<close>

lemma tail_run:
  assumes "pg_conn s \<noteq> None"
  shows "seq (execute_values E t data) (finish E t data) s =
    (if raises E (ExecuteValues t data)
     then (s\<lparr>trace := trace s @ [Ext (ExecuteValues t data)]\<rparr>,
           Inl (StoreError (ExecuteValues t data)))
     else if raises E (PgCommit t)
     then (s\<lparr>pg_tables := (pg_tables s)(t := pg_tables s t @ data),
             trace := trace s @ [Ext (ExecuteValues t data), Ext (PgCommit t)]\<rparr>,
           Inl (StoreError (PgCommit t)))
     else (s\<lparr>pg_tables := (pg_tables s)(t := pg_tables s t @ data),
             pg_committed := (pg_tables s)(t := pg_tables s t @ data),
             trace := trace s @ [Ext (ExecuteValues t data), Ext (PgCommit t),
               Print (Migrated t (length data)), Ext (MysqlCursorClose t)]\<rparr>,
           if raises E (MysqlCursorClose t) then Inl (StoreError (MysqlCursorClose t))
           else Inr ()))"
  using assms
  by (auto simp: execute_values_def finish_def commit_def seq_def bind_def pg_call_def ext_def
      print_def emit_def)

lemma plain_transfer:
  assumes k: "conns_open s" and f: "fetch_ok E t" and w: "plain_rows mk idcol (source E t)"
  shows "\<exists>ts. length ts = length (source E t) \<and>
     (\<forall>j < length (source E t).
        mk (uuid4 E (uuid_count s + j)) (source E t ! j) = Inr (ts ! j) \<and>
        migrated_records (fst (guarded E t (transfer_body E t (plain_step E mk idcol prefix)) s))
          (row_key E prefix idcol (source E t ! j)) = Some (uuid4 E (uuid_count s + j))) \<and>
     Ext (ExecuteValues t ts) \<in>
       set (trace (fst (guarded E t (transfer_body E t (plain_step E mk idcol prefix)) s))) \<and>
     (\<not> raises E (ExecuteValues t ts) \<and> \<not> raises E (PgCommit t) \<longrightarrow>
        pg_committed (fst (guarded E t (transfer_body E t (plain_step E mk idcol prefix)) s)) =
          (pg_tables s)(t := pg_tables s t @ ts)) \<and>
     ((raises E (ExecuteValues t ts) \<or> raises E (PgCommit t)) \<and> \<not> raises E (PgRollback t) \<longrightarrow>
        guarded E t (transfer_body E t (plain_step E mk idcol prefix)) s =
          (fst (guarded E t (transfer_body E t (plain_step E mk idcol prefix)) s), Inr ()) \<and>
        pg_committed (fst (guarded E t (transfer_body E t (plain_step E mk idcol prefix)) s)) =
          pg_committed s \<and>
        pg_tables (fst (guarded E t (transfer_body E t (plain_step E mk idcol prefix)) s)) =
          pg_committed s)"
proof -
  let ?body = "transfer_body E t (plain_step E mk idcol prefix)"
  let ?rows = "source E t"
  let ?s0 = "fst (print (Migrating t) s)"
  let ?s1 = "?s0\<lparr>trace := trace ?s0 @ [Ext (MysqlCursor t), Ext (MysqlExecute t),
     Ext (MysqlFetchall t), Ext (PgCursor t)]\<rparr>"
  have k0: "conns_open ?s0" using k by (simp add: print_run conns_open_def)
  have fr: "fetch_source E t ?s0 = (?s1, Inr ?rows)"
    by (rule fetch_run[OF k0 f])
  from plain_loop[OF w, of E prefix "[]" ?s1] obtain s2 ts where
    run: "for_rows (plain_step E mk idcol prefix) ?rows [] ?s1 = (s2, Inr ts)"
    and len: "length ts = length ?rows"
    and tup: "\<forall>j < length ?rows. mk (uuid4 E (uuid_count ?s1 + j)) (?rows ! j) = Inr (ts ! j)"
    and reg: "\<forall>j < length ?rows. migrated_records s2 (row_key E prefix idcol (?rows ! j)) =
        Some (uuid4 E (uuid_count ?s1 + j))"
    and rest: "pg_conn s2 = pg_conn ?s1" "pg_tables s2 = pg_tables ?s1"
      "pg_committed s2 = pg_committed ?s1"
    by auto
  have c1: "uuid_count ?s1 = uuid_count s" by (simp add: print_run)
  have p2: "pg_conn s2 \<noteq> None" using rest k by (simp add: print_run conns_open_def)
  have body: "?body ?s0 = seq (execute_values E t ts) (finish E t ts) s2"
    by (simp add: transfer_body_def bind_def fr run)
  note tl = tail_run[OF p2, of E t ts]
  show ?thesis
  proof (cases "raises E (ExecuteValues t ts) \<or> raises E (PgCommit t)")
    case True
    then obtain s3 e where b: "?body ?s0 = (s3, Inl e)"
      and s3: "migrated_records s3 = migrated_records s2" "pg_conn s3 = pg_conn s2"
        "pg_committed s3 = pg_committed s2" "Ext (ExecuteValues t ts) \<in> set (trace s3)"
      using body tl by (auto split: if_splits)
    have p3: "pg_conn s3 \<noteq> None" using s3 p2 by simp
    from guarded_raise[where body = ?body and E = E and t = t and s = s, OF b p3]
    have g: "migrated_records (fst (guarded E t ?body s)) = migrated_records s2"
      "Ext (ExecuteValues t ts) \<in> set (trace (fst (guarded E t ?body s)))"
      "\<not> raises E (PgRollback t) \<Longrightarrow> guarded E t ?body s = (fst (guarded E t ?body s), Inr ()) \<and>
         pg_committed (fst (guarded E t ?body s)) = pg_committed s \<and>
         pg_tables (fst (guarded E t ?body s)) = pg_committed s"
      using s3 rest by (auto simp: print_run split: if_splits)
    from True len tup reg g c1 show ?thesis
      by (intro exI[of _ ts]) auto
  next
    case False
    then obtain s3 r where b: "?body ?s0 = (s3, r)"
      and s3: "migrated_records s3 = migrated_records s2" "pg_conn s3 = pg_conn s2"
        "pg_committed s3 = (pg_tables s2)(t := pg_tables s2 t @ ts)"
        "pg_tables s3 = (pg_tables s2)(t := pg_tables s2 t @ ts)"
        "Ext (ExecuteValues t ts) \<in> set (trace s3)"
      using body tl by (auto split: if_splits)
    have p3: "pg_conn s3 \<noteq> None" using s3 p2 by simp
    have g: "migrated_records (fst (guarded E t ?body s)) = migrated_records s2 \<and>
      Ext (ExecuteValues t ts) \<in> set (trace (fst (guarded E t ?body s))) \<and>
      pg_committed (fst (guarded E t ?body s)) = (pg_tables s)(t := pg_tables s t @ ts)"
    proof (cases r)
      case (Inr u)
      with b have "guarded E t ?body s = (s3, Inr ())"
        by (simp add: guarded_return)
      with s3 rest show ?thesis by (simp add: print_run)
    next
      case (Inl e)
      from guarded_raise[where body = ?body and E = E and t = t and s = s,
          OF b[unfolded Inl] p3] s3 rest
      show ?thesis by (auto simp: print_run split: if_splits)
    qed
    from False len tup reg g c1 show ?thesis
      by (intro exI[of _ ts]) auto
  qed
qed

lemma tuple_head:
  "employee_tuple u r = Inr t \<Longrightarrow> t ! 0 = PStr u"
  "customer_tuple u r = Inr t \<Longrightarrow> t ! 0 = PStr u"
  "product_tuple E u r = Inr t \<Longrightarrow> t ! 0 = PStr u"
  unfolding employee_tuple_def customer_tuple_def product_tuple_def build_Inr
  by auto

lemma plain_each_row:
  assumes i: "inj (uuid4 E)" and k: "conns_open s" and f: "fetch_ok E t"
    and w: "plain_rows mk idcol (source E t)"
    and h: "\<And>u r tp. mk u r = Inr tp \<Longrightarrow> tp ! 0 = PStr u"
  shows "transfers_each_row E t mk idcol prefix
     (guarded E t (transfer_body E t (plain_step E mk idcol prefix))) s"
proof -
  let ?m = "guarded E t (transfer_body E t (plain_step E mk idcol prefix))"
  let ?rows = "source E t" and ?c = "uuid_count s"
  from plain_transfer[OF k f w, of prefix] obtain ts where
    len: "length ts = length ?rows"
    and row: "\<forall>j < length ?rows. mk (uuid4 E (?c + j)) (?rows ! j) = Inr (ts ! j) \<and>
        migrated_records (fst (?m s)) (row_key E prefix idcol (?rows ! j)) =
          Some (uuid4 E (?c + j))"
    and ins: "Ext (ExecuteValues t ts) \<in> set (trace (fst (?m s)))"
    and com: "\<not> raises E (ExecuteValues t ts) \<and> \<not> raises E (PgCommit t) \<longrightarrow>
        pg_committed (fst (?m s)) = (pg_tables s)(t := pg_tables s t @ ts)"
    by blast
  have hd: "ts ! j ! 0 = PStr (uuid4 E (?c + j))" if "j < length ?rows" for j
    using row that h by blast
  have fresh: "uuid4 E (?c + j) \<notin> uuid4 E ` {..< ?c}" for j
  proof
    assume "uuid4 E (?c + j) \<in> uuid4 E ` {..< ?c}"
    then obtain n where "n < ?c" "uuid4 E n = uuid4 E (?c + j)" by auto
    with i show False by (auto dest: injD)
  qed
  have "distinct (map (\<lambda>tp. tp ! 0) ts)"
    unfolding distinct_conv_nth
  proof (intro allI impI)
    fix a b assume ab: "a < length (map (\<lambda>tp. tp ! 0) ts)" "b < length (map (\<lambda>tp. tp ! 0) ts)"
      "a \<noteq> b"
    with len hd[of a] hd[of b] i show "map (\<lambda>tp. tp ! 0) ts ! a \<noteq> map (\<lambda>tp. tp ! 0) ts ! b"
      by (auto dest: injD)
  qed
  with len row ins com hd fresh show ?thesis
    unfolding transfers_each_row_def
    by (intro exI[of _ ts]) auto
qed

lemma demo_plain_rows:
  "plain_rows employee_tuple ''id_karyawan'' (source demo_env Employees)"
  "plain_rows customer_tuple ''id_member'' (source demo_env Customers)"
  "plain_rows (product_tuple demo_env) ''id_product'' (source demo_env Products)"
  by (simp_all add: plain_rows_def demo_env_def demo_emp_def demo_member_def demo_product_def
      employee_tuple_def customer_tuple_def product_tuple_def getitem_def bindE_def py_or_def)

lemma demo_fetch_ok: "fetch_ok demo_env t"
  by (simp add: fetch_ok_def demo_env_def)

lemma demo_connected: "conns_open (connected (init empty_db))"
  by (simp add: conns_open_def connected_def)

lemma invoice_skip:
  assumes "txn ''id_member'' = Some m" and "\<not> mapped E (migrated_records s) txn"
  shows "invoice_step E data txn s =
     (s\<lparr>uuid_count := Suc (uuid_count s),
        trace := trace s @ [Uuid4 (uuid_count s), RegGet (member_key E txn)]\<rparr>, Inr data)"
  using assms
  by (simp add: invoice_step_def bind_def new_uuid_def lift_def getitem_def reg_get_def ret_def
      mapped_def member_key_def)

lemma invoice_emit:
  assumes "txn ''id_member'' = Some m" and "mapped E (migrated_records s) txn"
    and "invoice_tuple E (uuid4 E (uuid_count s)) (the (migrated_records s (member_key E txn))) txn
       = Inr t"
  shows "invoice_step E data txn s =
     (s\<lparr>uuid_count := Suc (uuid_count s),
        migrated_records := (migrated_records s)(txn_key E txn \<mapsto> uuid4 E (uuid_count s)),
        trace := trace s @ [Uuid4 (uuid_count s), RegGet (member_key E txn),
          RegPut (txn_key E txn) (uuid4 E (uuid_count s))]\<rparr>, Inr (data @ [t]))"
proof -
  from assms(3) obtain i where "txn ''id_transaksi'' = Some i"
    unfolding invoice_tuple_def build_Inr by (auto simp: getitem_Inr)
  with assms show ?thesis
    by (simp add: invoice_step_def bind_def seq_def new_uuid_def lift_def getitem_def
        reg_get_def reg_put_def ret_def mapped_def member_key_def txn_key_def)
qed

lemma invoice_step_Inr:
  assumes "invoice_step E data txn s = (s', Inr data')"
  shows "uuid_count s' = Suc (uuid_count s) \<and>
     (if mapped E (migrated_records s) txn
      then (\<exists>t. data' = data @ [t]) \<and>
           migrated_records s' = (migrated_records s)(txn_key E txn \<mapsto> uuid4 E (uuid_count s))
      else data' = data \<and> migrated_records s' = migrated_records s)"
proof (cases "txn ''id_member''")
  case None
  with assms show ?thesis
    by (simp add: invoice_step_def bind_def new_uuid_def lift_def getitem_def)
next
  case (Some m)
  show ?thesis
  proof (cases "mapped E (migrated_records s) txn")
    case False
    from invoice_skip[OF Some False, of data] assms False show ?thesis by auto
  next
    case True
    let ?tp = "invoice_tuple E (uuid4 E (uuid_count s))
       (the (migrated_records s (member_key E txn))) txn"
    show ?thesis
    proof (cases ?tp)
      case (Inl e)
      with assms Some True show ?thesis
        by (simp add: invoice_step_def bind_def new_uuid_def lift_def getitem_def reg_get_def
            mapped_def member_key_def)
    next
      case (Inr t)
      from invoice_emit[OF Some True Inr, of data] assms True show ?thesis by auto
    qed
  qed
qed

lemma member_key_not_txn: "member_key E r \<noteq> txn_key E r'"
  by (simp add: member_key_def txn_key_def)

lemma invoice_loop:
  assumes "for_rows (invoice_step E) rows data s = (s', Inr data')"
    and "\<And>r. mapped E (migrated_records s) r = mapped E R r"
  shows "uuid_count s' = uuid_count s + length rows \<and>
     length data' = length data + length (filter (mapped E R) rows) \<and>
     (\<forall>k. migrated_records s' k \<noteq> migrated_records s k \<longrightarrow>
        k \<in> txn_key E ` {r \<in> set rows. mapped E R r})"
  using assms
proof (induction rows arbitrary: data s)
  case Nil
  then show ?case by (simp add: ret_def)
next
  case (Cons r rows)
  obtain s1 res where st: "invoice_step E data r s = (s1, res)"
    by (cases "invoice_step E data r s")
  with Cons.prems(1) obtain d1 where res: "res = Inr d1"
    by (cases res) (auto simp: bind_def)
  with st Cons.prems(1) have run: "for_rows (invoice_step E) rows d1 s1 = (s', Inr data')"
    by (simp add: bind_def)
  note step = invoice_step_Inr[OF st[unfolded res]]
  have reg1: "migrated_records s1 k = migrated_records s k \<or>
     (k = txn_key E r \<and> mapped E R r)" for k
    using step Cons.prems(2)[of r] by (auto split: if_splits)
  have same: "mapped E (migrated_records s1) x = mapped E R x" for x
    using reg1[of "member_key E x"] Cons.prems(2)[of x] member_key_not_txn[of E x r]
    by (auto simp: mapped_def)
  from Cons.IH[OF run same] have ih: "uuid_count s' = uuid_count s1 + length rows"
    "length data' = length d1 + length (filter (mapped E R) rows)"
    "\<forall>k. migrated_records s' k \<noteq> migrated_records s1 k \<longrightarrow>
        k \<in> txn_key E ` {r \<in> set rows. mapped E R r}"
    by auto
  have len: "length d1 = length data + (if mapped E R r then 1 else 0)"
    using step Cons.prems(2)[of r] by (auto split: if_splits)
  have "k \<in> txn_key E ` {x \<in> set (r # rows). mapped E R x}"
    if "migrated_records s' k \<noteq> migrated_records s k" for k
    using that ih(3) reg1[of k] by (cases "migrated_records s' k = migrated_records s1 k") auto
  with ih len step show ?case by auto
qed

lemma plain_survives:
  assumes k: "conns_open s" and f: "fetch_ok E t" and w: "plain_rows mk idcol (source E t)"
    and x: "insert_fails E t"
  shows "survives_rollback E t idcol prefix
     (guarded E t (transfer_body E t (plain_step E mk idcol prefix))) s"
proof -
  from plain_transfer[OF k f w, of prefix] obtain ts where
    row: "\<forall>j < length (source E t).
        migrated_records (fst (guarded E t (transfer_body E t (plain_step E mk idcol prefix)) s))
          (row_key E prefix idcol (source E t ! j)) = Some (uuid4 E (uuid_count s + j))"
    and rb: "(raises E (ExecuteValues t ts) \<or> raises E (PgCommit t)) \<and> \<not> raises E (PgRollback t)
       \<longrightarrow>
        guarded E t (transfer_body E t (plain_step E mk idcol prefix)) s =
          (fst (guarded E t (transfer_body E t (plain_step E mk idcol prefix)) s), Inr ()) \<and>
        pg_committed (fst (guarded E t (transfer_body E t (plain_step E mk idcol prefix)) s)) =
          pg_committed s \<and>
        pg_tables (fst (guarded E t (transfer_body E t (plain_step E mk idcol prefix)) s)) =
          pg_committed s"
    by blast
  from x have "(raises E (ExecuteValues t ts) \<or> raises E (PgCommit t)) \<and> \<not> raises E (PgRollback t)"
    by (auto simp: insert_fails_def)
  with rb row show ?thesis
    unfolding survives_rollback_def by (metis snd_conv)
qed

lemma invoice_tuple_customer: "invoice_tuple E u c txn = Inr t \<Longrightarrow> t ! 2 = PStr c"
  unfolding invoice_tuple_def build_Inr by auto

lemma calls_append [simp]: "calls (a @ b) = calls a @ calls b"
  by (induction a rule: calls.induct) simp_all

lemma calls_map_Ext [simp]: "calls (map Ext cs) = cs"
  by (induction cs) simp_all

lemma calls_no_ext: "(\<forall>c. Ext c \<notin> set evs) \<Longrightarrow> calls evs = []"
  by (induction evs rule: calls.induct) auto

lemma toggle_run:
  "toggle E c n ts s =
     (s\<lparr>trace := trace s @ map Ext (map (\<lambda>(i, t). c i t) (enumerate n ts))\<rparr>, Inr ())"
proof (induction ts arbitrary: n s)
  case Nil
  show ?case by (simp add: ret_def)
next
  case (Cons t ts)
  show ?case
    by (simp add: seq_def bind_def swallow_def ext_def Cons)
qed

lemma toggle_run0:
  "toggle E c 0 ts s = (s\<lparr>trace := trace s @ map Ext (toggles c ts)\<rparr>, Inr ())"
  by (simp add: toggle_run toggles_def)

lemma item_step_no_calls: "emits (\<lambda>e. \<forall>c. e \<noteq> Ext c) (item_step E data r)"
  unfolding item_step_def by auto

lemma items_loop_frame:
  assumes "for_rows (item_step E) rows data s = (s', r)"
  shows "calls (trace s') = calls (trace s) \<and> pg_conn s' = pg_conn s"
proof -
  have "emits (\<lambda>e. \<forall>c. e \<noteq> Ext c) (for_rows (item_step E) rows data)"
    by (intro emits_for_rows item_step_no_calls)
  with assms obtain evs where "pg_conn s' = pg_conn s" "trace s' = trace s @ evs"
    "list_all (\<lambda>e. \<forall>c. e \<noteq> Ext c) evs"
    unfolding emits_def by (metis fst_conv)
  then show ?thesis
    by (simp add: calls_no_ext list_all_iff) (metis calls_no_ext append_Nil2)
qed

lemma items_prefix_run:
  assumes "conns_open s" and "setup_ok E"
  shows "items_body E (fst (print (Migrating InvoiceItems) s)) =
     bind (for_rows (item_step E) (source E InvoiceItems) []) (\<lambda>data.
       seq (if data \<noteq> [] then execute_values E InvoiceItems data else ret ())
      (seq (toggle E EnableTrigger 0 (pg_triggers E))
           (finish E InvoiceItems data))) (before_items_loop E s)"
proof -
  let ?s0 = "s\<lparr>trace := trace s @ [Print (Migrating InvoiceItems)]\<rparr>"
  have k0: "conns_open ?s0" using assms(1) by (simp add: conns_open_def)
  from assms(2) have f: "fetch_ok E InvoiceItems" by (simp add: setup_ok_def)
  show ?thesis
    using assms(2)
    by (auto simp: items_body_def bind_def fetch_run[OF k0 f] seq_apply ext_def toggle_run0
        before_items_loop_def items_setup_def print_run setup_ok_def
        split: prod.splits sum.splits)
qed

lemma guarded_calls:
  assumes "body (fst (print (Migrating t) s)) = (s1, r)" and "pg_conn s1 \<noteq> None"
  shows "calls (trace (fst (guarded E t body s))) =
     calls (trace s1) @ (case r of Inl e \<Rightarrow> [PgRollback t] | Inr u \<Rightarrow> [])"
proof (cases r)
  case (Inl e)
  from guarded_raise[where body = body and E = E and t = t and s = s, OF assms(1)[unfolded Inl]
      assms(2)] Inl
  show ?thesis by (simp split: if_splits)
next
  case (Inr u)
  with assms(1) have "guarded E t body s = (s1, Inr ())"
    by (simp add: guarded_return)
  with Inr show ?thesis by simp
qed

lemma items_rest_calls:
  assumes "pg_conn s \<noteq> None"
    and "seq (if d \<noteq> [] then execute_values E InvoiceItems d else ret ())
      (seq (toggle E EnableTrigger 0 (pg_triggers E)) (finish E InvoiceItems d)) s = (s', r)"
  shows "pg_conn s' = pg_conn s \<and>
     calls (trace s') @ (case r of Inl e \<Rightarrow> [PgRollback InvoiceItems] | Inr u \<Rightarrow> []) =
     calls (trace s) @
       (if d \<noteq> [] \<and> raises E (ExecuteValues InvoiceItems d)
        then [ExecuteValues InvoiceItems d, PgRollback InvoiceItems]
        else (if d \<noteq> [] then [ExecuteValues InvoiceItems d] else []) @
          toggles EnableTrigger (pg_triggers E) @ [PgCommit InvoiceItems] @ after_commit E)"
  using assms
  by (auto simp: seq_apply execute_values_def ext_def ret_def toggle_run0 finish_def commit_def
      pg_call_def print_run after_commit_def split: if_splits)

lemma items_run:
  assumes k: "conns_open s" and ok: "setup_ok E"
    and loop: "for_rows (item_step E) (source E InvoiceItems) [] (before_items_loop E s) = (s5, r)"
  shows "calls (trace (fst (migrate_invoice_items E s))) =
     calls (trace s) @ items_calls E (case r of Inl e \<Rightarrow> None | Inr d \<Rightarrow> Some d)"
proof -
  let ?s0 = "fst (print (Migrating InvoiceItems) s)"
  from items_loop_frame[OF loop] k
  have c5: "calls (trace s5) = calls (trace s) @ items_setup E" and p5: "pg_conn s5 \<noteq> None"
    by (simp_all add: before_items_loop_def conns_open_def)
  show ?thesis
  proof (cases r)
    case (Inl e)
    then have b: "items_body E ?s0 = (s5, Inl e)"
      by (simp add: items_prefix_run[OF k ok] bind_def loop)
    from guarded_calls[where body = "items_body E" and t = InvoiceItems and s = s and E = E,
        OF b p5] c5 Inl show ?thesis
      by (simp add: migrate_invoice_items_def)
  next
    case (Inr d)
    let ?rest = "seq (if d \<noteq> [] then execute_values E InvoiceItems d else ret ())
      (seq (toggle E EnableTrigger 0 (pg_triggers E)) (finish E InvoiceItems d))"
    obtain s6 r6 where rest: "?rest s5 = (s6, r6)" by (cases "?rest s5")
    with Inr have b: "items_body E ?s0 = (s6, r6)"
      by (simp add: items_prefix_run[OF k ok] bind_def loop)
    from items_rest_calls[OF p5 rest] have p6: "pg_conn s6 \<noteq> None"
      and c6: "calls (trace s6) @ (case r6 of Inl e \<Rightarrow> [PgRollback InvoiceItems] | Inr u \<Rightarrow> []) =
        calls (trace s5) @
          (if d \<noteq> [] \<and> raises E (ExecuteValues InvoiceItems d)
           then [ExecuteValues InvoiceItems d, PgRollback InvoiceItems]
           else (if d \<noteq> [] then [ExecuteValues InvoiceItems d] else []) @
             toggles EnableTrigger (pg_triggers E) @ [PgCommit InvoiceItems] @ after_commit E)"
      using p5 by simp_all
    from guarded_calls[where body = "items_body E" and t = InvoiceItems and s = s and E = E,
        OF b p6] c6 c5 Inr show ?thesis
      by (simp add: migrate_invoice_items_def)
  qed
qed

lemma demo_items_loop:
  "\<exists>s5 t. for_rows (item_step (demo_env\<lparr>raises := f\<rparr>))
       (source (demo_env\<lparr>raises := f\<rparr>) InvoiceItems) []
       (before_items_loop (demo_env\<lparr>raises := f\<rparr>) demo_items_ready) = (s5, Inr [t])"
  by (simp add: demo_env_def bind_def item_step_def lift_def getitem_def reg_get_def found_def
      new_uuid_def ret_def item_tuple_def bindE_def int_or_def float_or_zero_def
      demo_detail_def demo_items_ready_def before_items_loop_def connected_def init_def
      str_int_def str_nat.simps digit_def)

lemma demo_items_ready_open: "conns_open demo_items_ready"
  by (simp add: demo_items_ready_def connected_def conns_open_def)

lemma demo_items_calls:
  assumes "setup_ok (demo_env\<lparr>raises := f\<rparr>)"
  shows "\<exists>t. calls (trace (fst (migrate_invoice_items (demo_env\<lparr>raises := f\<rparr>) demo_items_ready)))
     = items_calls (demo_env\<lparr>raises := f\<rparr>) (Some [t])"
proof -
  from demo_items_loop[of f] obtain s5 t where
    "for_rows (item_step (demo_env\<lparr>raises := f\<rparr>))
       (source (demo_env\<lparr>raises := f\<rparr>) InvoiceItems) []
       (before_items_loop (demo_env\<lparr>raises := f\<rparr>) demo_items_ready) = (s5, Inr [t])"
    by blast
  from items_run[OF demo_items_ready_open assms this]
  have "calls (trace (fst (migrate_invoice_items (demo_env\<lparr>raises := f\<rparr>) demo_items_ready)))
     = calls (trace demo_items_ready) @ items_calls (demo_env\<lparr>raises := f\<rparr>) (Some [t])"
    by simp
  then show ?thesis
    by (auto simp: demo_items_ready_def connected_def init_def)
qed

section \<open>Every row of a table without a parent is transferred\<close>



section \<open>Transactions of an unknown customer\<close>

text \<open>
  Claim C2, as stated: for a transaction row whose member has no entry in the
  registry the invoice transfer emits no row, mints no identifier and adds no registry
  entry. The loop draws the identifier before it looks the member up: on a single row of
  an unknown member, the batch and the registry stay empty, and identifier 0 has been
  drawn.
\<close>

theorem identifier_drawn_for_skipped_row:
  "\<not> mapped demo_env (migrated_records (init empty_db)) (demo_txn 11 4 PNone PNone) \<and>
   for_rows (invoice_step demo_env) [demo_txn 11 4 PNone PNone] [] (init empty_db) =
     ((init empty_db)\<lparr>uuid_count := 1, trace := [Uuid4 0, RegGet ''member_4'']\<rparr>, Inr [])"
proof -
  have m: "demo_txn 11 4 PNone PNone ''id_member'' = Some (PInt 4)"
    by (simp add: demo_txn_def)
  have n: "\<not> mapped demo_env (migrated_records (init empty_db)) (demo_txn 11 4 PNone PNone)"
    by (simp add: mapped_def init_def found_def)
  have k: "member_key demo_env (demo_txn 11 4 PNone PNone) = ''member_4''"
    by (simp add: member_key_def demo_txn_def str_int_def str_nat.simps digit_def)
  from invoice_skip[OF m n, of "[]"] n k show ?thesis
    by (simp add: bind_def ret_def init_def)
qed

text \<open>
  Claim C2, amended. For a transaction row whose member key has no true entry in the
  registry, the loop body appends nothing to the batch and leaves the registry as it is;
  it does draw one identifier, which is used nowhere. Over the whole loop, when it does
  not raise: an identifier is drawn for every row, the batch grows by one tuple for each
  mapped row only, and every registry entry that changed is the key of a mapped row.
\<close>

theorem unmapped_invoice_skipped:
  "(txn ''id_member'' = Some m \<and> \<not> mapped E (migrated_records s) txn \<longrightarrow>
      invoice_step E data txn s =
        (s\<lparr>uuid_count := Suc (uuid_count s),
           trace := trace s @ [Uuid4 (uuid_count s), RegGet (member_key E txn)]\<rparr>, Inr data)) \<and>
   (for_rows (invoice_step E) rows data s = (s', Inr data') \<longrightarrow>
      uuid_count s' = uuid_count s + length rows \<and>
      length data' = length data + length (filter (mapped E (migrated_records s)) rows) \<and>
      (\<forall>k. migrated_records s' k \<noteq> migrated_records s k \<longrightarrow>
         k \<in> txn_key E ` {r \<in> set rows. mapped E (migrated_records s) r}))"
  using invoice_skip[of txn m E s data] invoice_loop[of E rows data s s' data' "migrated_records s"]
  by blast

theorem unmapped_invoice_skipped_witness:
  "mapped demo_env (migrated_records demo_registered) (demo_txn 10 1 (PStr ''paid'') (PInt 5000)) \<and>
   \<not> mapped demo_env (migrated_records demo_registered) (demo_txn 11 4 PNone PNone) \<and>
   (\<exists>s' data'.
      for_rows (invoice_step demo_env) (source demo_env Invoices) [] demo_registered =
        (s', Inr data') \<and>
      uuid_count s' = 7 \<and> length data' = 1 \<and> dom (migrated_records s') = {''member_1'', ''txn_10''})"
proof -
  let ?r1 = "demo_txn 10 1 (PStr ''paid'') (PInt 5000)" and ?r2 = "demo_txn 11 4 PNone PNone"
  let ?s0 = demo_registered
  have src: "source demo_env Invoices = [?r1, ?r2]" by (simp add: demo_env_def)
  have keys: "member_key demo_env ?r1 = ''member_1''" "member_key demo_env ?r2 = ''member_4''"
    "txn_key demo_env ?r1 = ''txn_10''"
    by (simp_all add: member_key_def txn_key_def demo_txn_def str_int_def str_nat.simps digit_def)
  have ids: "?r1 ''id_member'' = Some (PInt 1)" "?r2 ''id_member'' = Some (PInt 4)"
    by (simp_all add: demo_txn_def)
  have m1: "mapped demo_env (migrated_records ?s0) ?r1"
    by (simp add: mapped_def keys demo_registered_def found_def)
  obtain t where tup: "invoice_tuple demo_env (uuid4 demo_env (uuid_count ?s0))
       (the (migrated_records ?s0 (member_key demo_env ?r1))) ?r1 = Inr t"
    by (simp add: invoice_tuple_def demo_txn_def getitem_def bindE_def int_or_def py_or_def)
  let ?s1 = "?s0\<lparr>uuid_count := Suc (uuid_count ?s0),
        migrated_records := (migrated_records ?s0)(txn_key demo_env ?r1 \<mapsto>
          uuid4 demo_env (uuid_count ?s0)),
        trace := trace ?s0 @ [Uuid4 (uuid_count ?s0), RegGet (member_key demo_env ?r1),
          RegPut (txn_key demo_env ?r1) (uuid4 demo_env (uuid_count ?s0))]\<rparr>"
  have st1: "invoice_step demo_env [] ?r1 ?s0 = (?s1, Inr [t])"
    using invoice_emit[OF ids(1) m1 tup, of "[]"] by simp
  have n0: "\<not> mapped demo_env (migrated_records ?s0) ?r2"
    by (simp add: mapped_def keys demo_registered_def found_def)
  have n1: "\<not> mapped demo_env (migrated_records ?s1) ?r2"
    by (simp add: mapped_def keys demo_registered_def found_def)
  from unmapped_invoice_skipped[where E = demo_env and txn = ?r2 and m = "PInt 4" and s = ?s1
      and data = "[t]"] ids(2) n1
  have st2: "invoice_step demo_env [t] ?r2 ?s1 =
     (?s1\<lparr>uuid_count := Suc (uuid_count ?s1),
         trace := trace ?s1 @ [Uuid4 (uuid_count ?s1), RegGet (member_key demo_env ?r2)]\<rparr>,
      Inr [t])"
    by blast
  let ?s2 = "?s1\<lparr>uuid_count := Suc (uuid_count ?s1),
         trace := trace ?s1 @ [Uuid4 (uuid_count ?s1), RegGet (member_key demo_env ?r2)]\<rparr>"
  have loop: "for_rows (invoice_step demo_env) (source demo_env Invoices) [] ?s0 = (?s2, Inr [t])"
    by (simp add: src bind_def st1 st2 ret_def)
  from unmapped_invoice_skipped[where E = demo_env and rows = "source demo_env Invoices"
      and data = "[]" and s = ?s0 and s' = ?s2 and data' = "[t]"] loop
  have cnt: "uuid_count ?s2 = uuid_count ?s0 + length (source demo_env Invoices)"
    by blast
  have d: "dom (migrated_records ?s2) = {''member_1'', ''txn_10''}"
    by (auto simp: keys demo_registered_def)
  from cnt have "uuid_count ?s2 = 7" by (simp add: src demo_registered_def)
  with loop d m1 n0 show ?thesis by auto
qed

section \<open>Lookups come after the transfer that fills the tag\<close>



section \<open>The registry is injective\<close>

text \<open>
  Claim C4. In every state of the registry that a run passes through (the registry
  built by any initial part of the trace), two keys mapped to the same target identifier
  are the same key; in particular two distinct keys of one tag never share an identifier,
  and an identifier leads back to at most one key. The identifiers \<open>uuid.uuid4()\<close>
  returns are taken to be pairwise distinct.
\<close>

theorem registry_injective:
  assumes "inj (uuid4 E)"
  shows "migrated_records (fst (main E (init db))) =
       registry_after Map.empty (trace (fst (main E (init db)))) \<and>
     (\<forall>n k k' v. registry_after Map.empty (take n (trace (fst (main E (init db))))) k = Some v \<and>
        registry_after Map.empty (take n (trace (fst (main E (init db))))) k' = Some v
        \<longrightarrow> k = k')"
proof -
  let ?tr = "trace (fst (main E (init db)))"
  from reg_stable_main[OF assms] registry_inv_init[of E db]
  have I: "registry_inv E (fst (main E (init db)))"
    unfolding stable_def by blast
  then have d: "distinct (stored ?tr)" by (simp add: registry_inv_def)
  have "k = k'" if "registry_after Map.empty (take n ?tr) k = Some v"
    "registry_after Map.empty (take n ?tr) k' = Some v" for n k k' v
  proof -
    from registry_after_inj[OF stored_take[OF d, of n], of Map.empty]
    have "inj_on (registry_after Map.empty (take n ?tr))
       (dom (registry_after Map.empty (take n ?tr)))" by simp
    with that show ?thesis by (auto simp: inj_on_def dom_def)
  qed
  with I show ?thesis by (auto simp: registry_inv_def)
qed

theorem registry_injective_witness:
  "inj (uuid4 demo_env) \<and>
   migrated_records (fst (main demo_env (init empty_db))) =
     registry_after Map.empty (trace (fst (main demo_env (init empty_db)))) \<and>
   \<not> (\<exists>n k k' v. k \<noteq> k' \<and>
      registry_after Map.empty (take n (trace (fst (main demo_env (init empty_db))))) k = Some v \<and>
      registry_after Map.empty (take n (trace (fst (main demo_env (init empty_db))))) k' = Some v)"
  using registry_injective[OF inj_demo_uuid4, of empty_db] inj_demo_uuid4 by blast

section \<open>Failures of a table and the exit status\<close>







section \<open>The registry is not rolled back\<close>

text \<open>
  Claim C8. When the bulk insert or the commit of the employees, customers or products
  transfer raises and the rollback returns, nothing of the table is committed and the
  transfer returns normally, yet the registry still maps the key of every source row to
  the identifier drawn for it. After such a customers transfer, the invoice loop body
  finds the member of a transaction and emits an invoice tuple whose customer id is that
  identifier, which the target store never committed.
\<close>

theorem registry_survives_rollback:
  assumes "conns_open s"
  shows "(fetch_ok E Employees \<and> plain_rows employee_tuple ''id_karyawan'' (source E Employees) \<and>
        insert_fails E Employees
       \<longrightarrow> survives_rollback E Employees ''id_karyawan'' ''emp_'' (migrate_employees E) s) \<and>
     (fetch_ok E Customers \<and> plain_rows customer_tuple ''id_member'' (source E Customers) \<and>
        insert_fails E Customers
       \<longrightarrow> survives_rollback E Customers ''id_member'' ''member_'' (migrate_customers E) s) \<and>
     (fetch_ok E Products \<and> plain_rows (product_tuple E) ''id_product'' (source E Products) \<and>
        insert_fails E Products
       \<longrightarrow> survives_rollback E Products ''id_product'' ''prod_'' (migrate_products E) s) \<and>
     (survives_rollback E Customers ''id_member'' ''member_'' (migrate_customers E) s \<and>
        j < length (source E Customers) \<and>
        txn ''id_member'' = (source E Customers ! j) ''id_member'' \<and>
        txn ''id_member'' \<noteq> None \<and> uuid4 E (uuid_count s + j) \<noteq> [] \<and>
        invoice_tuple E (uuid4 E (uuid_count (fst (migrate_customers E s))))
          (uuid4 E (uuid_count s + j)) txn = Inr t
       \<longrightarrow> pg_committed (fst (migrate_customers E s)) Customers = pg_committed s Customers \<and>
           snd (invoice_step E data txn (fst (migrate_customers E s))) = Inr (data @ [t]) \<and>
           t ! 2 = PStr (uuid4 E (uuid_count s + j)))"
proof (intro conjI impI)
  assume "fetch_ok E Employees \<and> plain_rows employee_tuple ''id_karyawan'' (source E Employees) \<and>
        insert_fails E Employees"
  with assms show "survives_rollback E Employees ''id_karyawan'' ''emp_'' (migrate_employees E) s"
    unfolding migrate_employees_def steps_plain by (intro plain_survives) auto
next
  assume "fetch_ok E Customers \<and> plain_rows customer_tuple ''id_member'' (source E Customers) \<and>
        insert_fails E Customers"
  with assms show "survives_rollback E Customers ''id_member'' ''member_'' (migrate_customers E) s"
    unfolding migrate_customers_def steps_plain by (intro plain_survives) auto
next
  assume "fetch_ok E Products \<and> plain_rows (product_tuple E) ''id_product'' (source E Products) \<and>
        insert_fails E Products"
  with assms show "survives_rollback E Products ''id_product'' ''prod_'' (migrate_products E) s"
    unfolding migrate_products_def steps_plain by (intro plain_survives) auto
next
  let ?s' = "fst (migrate_customers E s)"
  assume a: "survives_rollback E Customers ''id_member'' ''member_'' (migrate_customers E) s \<and>
        j < length (source E Customers) \<and>
        txn ''id_member'' = (source E Customers ! j) ''id_member'' \<and>
        txn ''id_member'' \<noteq> None \<and> uuid4 E (uuid_count s + j) \<noteq> [] \<and>
        invoice_tuple E (uuid4 E (uuid_count ?s')) (uuid4 E (uuid_count s + j)) txn = Inr t"
  then have "txn ''id_member'' \<noteq> None" by blast
  then obtain m where m: "txn ''id_member'' = Some m" by blast
  from a have key: "member_key E txn = row_key E ''member_'' ''id_member'' (source E Customers ! j)"
    by (simp add: member_key_def row_key_def)
  from a have reg: "migrated_records ?s' (member_key E txn) = Some (uuid4 E (uuid_count s + j))"
    unfolding survives_rollback_def key by blast
  with a have mp: "mapped E (migrated_records ?s') txn"
    by (simp add: mapped_def found_def)
  from a reg have tp: "invoice_tuple E (uuid4 E (uuid_count ?s'))
      (the (migrated_records ?s' (member_key E txn))) txn = Inr t"
    by simp
  from invoice_emit[OF m mp tp, of data]
  show "snd (invoice_step E data txn ?s') = Inr (data @ [t])"
    by simp
  from invoice_tuple_customer[OF tp] reg
  show "t ! 2 = PStr (uuid4 E (uuid_count s + j))"
    by simp
  from a show "pg_committed ?s' Customers = pg_committed s Customers"
    by (simp add: survives_rollback_def)
qed

theorem registry_survives_rollback_witness:
  "conns_open (connected (init empty_db)) \<and> fetch_ok flaky_env Customers \<and>
   plain_rows customer_tuple ''id_member'' (source flaky_env Customers) \<and>
   insert_fails flaky_env Customers \<and>
   survives_rollback flaky_env Customers ''id_member'' ''member_'' (migrate_customers flaky_env)
     (connected (init empty_db)) \<and>
   pg_committed (fst (migrate_customers flaky_env (connected (init empty_db)))) Customers = [] \<and>
   (\<exists>t. snd (invoice_step flaky_env [] (demo_txn 10 1 (PStr ''paid'') (PInt 5000))
            (fst (migrate_customers flaky_env (connected (init empty_db))))) = Inr [t] \<and>
        t ! 2 = PStr ''u'')"
proof -
  let ?s = "connected (init empty_db)"
  let ?txn = "demo_txn 10 1 (PStr ''paid'') (PInt 5000)"
  have src: "source flaky_env = source demo_env" and u: "uuid4 flaky_env = uuid4 demo_env"
    and r: "raises flaky_env = customers_insert"
    by (simp_all add: flaky_env_def)
  have f: "fetch_ok flaky_env Customers" by (simp add: fetch_ok_def r)
  have w: "plain_rows customer_tuple ''id_member'' (source flaky_env Customers)"
    unfolding src by (rule demo_plain_rows(2))
  have x: "insert_fails flaky_env Customers" by (simp add: insert_fails_def r)
  note T = registry_survives_rollback[OF demo_connected, where E = flaky_env and j = 0
      and txn = ?txn and data = "[]"]
  from T f w x
  have sv: "survives_rollback flaky_env Customers ''id_member'' ''member_''
     (migrate_customers flaky_env) ?s"
    by blast
  obtain t where tp: "invoice_tuple flaky_env
      (uuid4 flaky_env (uuid_count (fst (migrate_customers flaky_env ?s))))
      (uuid4 flaky_env (uuid_count ?s + 0)) ?txn = Inr t"
    by (simp add: invoice_tuple_def demo_txn_def getitem_def bindE_def int_or_def py_or_def)
  have pre: "0 < length (source flaky_env Customers) \<and>
     ?txn ''id_member'' = (source flaky_env Customers ! 0) ''id_member'' \<and>
     ?txn ''id_member'' \<noteq> None \<and> uuid4 flaky_env (uuid_count ?s + 0) \<noteq> []"
    by (simp add: src u demo_env_def demo_txn_def demo_member_def)
  from T[of t] sv pre tp
  have dep: "pg_committed (fst (migrate_customers flaky_env ?s)) Customers =
       pg_committed ?s Customers \<and>
     snd (invoice_step flaky_env [] ?txn (fst (migrate_customers flaky_env ?s))) = Inr ([] @ [t]) \<and>
     t ! 2 = PStr (uuid4 flaky_env (uuid_count ?s + 0))"
    by blast
  have "pg_committed ?s Customers = []" "uuid4 flaky_env (uuid_count ?s + 0) = ''u''"
    by (simp_all add: connected_def init_def empty_db_def u demo_env_def)
  with dep demo_connected f w x sv show ?thesis by auto
qed

section \<open>Triggers around the bulk insert of line items\<close>

text \<open>
  Claim C7, as stated: every trigger is disabled before the bulk insert and enabled
  again after it, and the insert is never issued while a trigger is enabled. It fails
  twice. Where the \<open>DISABLE TRIGGER\<close> raises, the failure is swallowed and the insert is
  issued all the same, after no toggle that took effect. Where the insert raises, with
  the trigger disabled, no \<open>ENABLE TRIGGER\<close> is issued: the rollback is the last call.
\<close>

theorem insert_issued_after_failed_disable:
  "raises denied_env (DisableTrigger 0 ''trg_stock'') \<and>
   (\<exists>t. calls (trace (fst (migrate_invoice_items denied_env demo_items_ready))) =
      [MysqlCursor InvoiceItems, MysqlExecute InvoiceItems, MysqlFetchall InvoiceItems,
       PgCursor InvoiceItems, SetConstraintsDeferred, SelectTriggers, FetchTriggers,
       DisableTrigger 0 ''trg_stock'', ExecuteValues InvoiceItems [t],
       PgRollback InvoiceItems]) \<and>
   \<not> raises items_insert_env (DisableTrigger 0 ''trg_stock'') \<and>
   (\<exists>t. calls (trace (fst (migrate_invoice_items items_insert_env demo_items_ready))) =
      [MysqlCursor InvoiceItems, MysqlExecute InvoiceItems, MysqlFetchall InvoiceItems,
       PgCursor InvoiceItems, SetConstraintsDeferred, SelectTriggers, FetchTriggers,
       DisableTrigger 0 ''trg_stock'', ExecuteValues InvoiceItems [t],
       PgRollback InvoiceItems])"
proof -
  have a: "setup_ok (demo_env\<lparr>raises := toggle_denied\<rparr>)"
    and b: "setup_ok (demo_env\<lparr>raises := items_insert\<rparr>)"
    by (simp_all add: setup_ok_def fetch_ok_def)
  have tr: "pg_triggers (demo_env\<lparr>raises := f\<rparr>) = [''trg_stock'']" for f
    by (simp add: demo_env_def)
  from demo_items_calls[OF a] demo_items_calls[OF b] show ?thesis
    by (simp add: denied_env_def items_insert_env_def items_setup_def toggles_def tr enumerate_simps)
qed

text \<open>
  Claim C7, amended. When the fetch, \<open>SET CONSTRAINTS ALL DEFERRED\<close> and the
  catalogue query return, the calls of the line item transfer are, in this order: the
  fetch, \<open>SET CONSTRAINTS ALL DEFERRED\<close>, the catalogue query, a \<open>DISABLE TRIGGER\<close>
  for every listed trigger, the bulk insert when the batch is not empty, an
  \<open>ENABLE TRIGGER\<close> for every listed trigger, the commit. A toggle that raises is
  swallowed and the sequence goes on, so the insert comes after a \<open>DISABLE TRIGGER\<close> has
  been attempted for every listed trigger, whether or not it took effect. When the row
  loop or the insert raises, no \<open>ENABLE TRIGGER\<close> is issued and the rollback follows.
\<close>

theorem items_call_sequence:
  assumes "conns_open s" and "setup_ok E"
  shows "calls (trace (fst (migrate_invoice_items E s))) =
       calls (trace s) @
       items_calls E
        (case snd (for_rows (item_step E) (source E InvoiceItems) [] (before_items_loop E s)) of
           Inl e \<Rightarrow> None | Inr d \<Rightarrow> Some d) \<and>
     snd (toggle E c n ts s') = Inr ()"
proof -
  obtain s5 r where
    "for_rows (item_step E) (source E InvoiceItems) [] (before_items_loop E s) = (s5, r)"
    by (cases "for_rows (item_step E) (source E InvoiceItems) [] (before_items_loop E s)")
  from items_run[OF assms this] this show ?thesis
    by (simp add: toggle_run)
qed

theorem items_call_sequence_witness:
  "conns_open demo_items_ready \<and> setup_ok demo_env \<and>
   (\<exists>t. calls (trace (fst (migrate_invoice_items demo_env demo_items_ready))) =
      [MysqlCursor InvoiceItems, MysqlExecute InvoiceItems, MysqlFetchall InvoiceItems,
       PgCursor InvoiceItems, SetConstraintsDeferred, SelectTriggers, FetchTriggers,
       DisableTrigger 0 ''trg_stock'', ExecuteValues InvoiceItems [t],
       EnableTrigger 0 ''trg_stock'', PgCommit InvoiceItems, MysqlCursorClose InvoiceItems]) \<and>
   raises denied_env (DisableTrigger 0 ''trg_stock'') \<and>
   snd (toggle denied_env DisableTrigger 0 [''trg_stock''] demo_items_ready) = Inr ()"
proof -
  have e: "demo_env\<lparr>raises := raises demo_env\<rparr> = demo_env" by simp
  have ok: "setup_ok demo_env"
    by (simp add: setup_ok_def fetch_ok_def demo_env_def)
  from demo_items_loop[of "raises demo_env"] obtain s5 t where
    loop: "for_rows (item_step demo_env) (source demo_env InvoiceItems) []
       (before_items_loop demo_env demo_items_ready) = (s5, Inr [t])"
    unfolding e by blast
  note T = items_call_sequence[OF demo_items_ready_open ok, of DisableTrigger 0 "[''trg_stock'']"
      demo_items_ready]
  have okd: "setup_ok denied_env"
    by (simp add: setup_ok_def fetch_ok_def denied_env_def)
  have rd: "raises denied_env (DisableTrigger 0 ''trg_stock'')"
    by (simp add: denied_env_def)
  have t2: "snd (toggle denied_env DisableTrigger 0 [''trg_stock''] demo_items_ready) = Inr ()"
    using items_call_sequence[OF demo_items_ready_open okd, of DisableTrigger 0
        "[''trg_stock'']" demo_items_ready]
    by blast
  from T loop
  have "calls (trace (fst (migrate_invoice_items demo_env demo_items_ready))) =
     calls (trace demo_items_ready) @ items_calls demo_env (Some [t])"
    by simp
  then have "calls (trace (fst (migrate_invoice_items demo_env demo_items_ready))) =
      [MysqlCursor InvoiceItems, MysqlExecute InvoiceItems, MysqlFetchall InvoiceItems,
       PgCursor InvoiceItems, SetConstraintsDeferred, SelectTriggers, FetchTriggers,
       DisableTrigger 0 ''trg_stock'', ExecuteValues InvoiceItems [t],
       EnableTrigger 0 ''trg_stock'', PgCommit InvoiceItems, MysqlCursorClose InvoiceItems]"
    by (simp add: demo_items_ready_def connected_def init_def items_setup_def toggles_def
        enumerate_simps after_commit_def demo_env_def)
  with demo_items_ready_open ok t2 rd show ?thesis by blast
qed

section \<open>Defaults of the row transforms\<close>

text \<open>
  Claim C9. In the tuple of an invoice line item the quantity (item 6) is \<open>int(qty)\<close>
  when the source \<open>qty\<close> is true in Python's sense and 1 otherwise, so a source
  quantity that is NULL, empty or zero is migrated as 1; a unit price (item 7) or a
  subtotal (item 9) that is NULL or zero is migrated as 0.0, and an invoice total that is
  NULL or zero is migrated as 0 (items 8 and 11 of the invoice tuple).
\<close>

theorem quantity_defaults_to_one:
  "(item_tuple E item_id inv_id prod_id detail = Inr t \<longrightarrow>
      (\<exists>q h st. detail ''qty'' = Some q \<and> detail ''harga'' = Some h \<and>
        detail ''subtotal'' = Some st \<and>
        (truthy q \<longrightarrow> (\<exists>i. py_int E q = Inr i \<and> t ! 6 = PInt i)) \<and>
        (\<not> truthy q \<longrightarrow> t ! 6 = PInt 1) \<and>
        (q \<in> {PNone, PStr [], PInt 0, PDec 0} \<longrightarrow> t ! 6 = PInt 1) \<and>
        (h \<in> {PNone, PInt 0, PDec 0} \<longrightarrow> t ! 7 = PDec 0) \<and>
        (st \<in> {PNone, PInt 0, PDec 0} \<longrightarrow> t ! 9 = PDec 0))) \<and>
   (invoice_tuple E inv_id cust_id txn = Inr t' \<longrightarrow>
      (\<exists>tot. txn ''total_pembelian'' = Some tot \<and>
        (tot \<in> {PNone, PInt 0, PDec 0} \<longrightarrow> t' ! 8 = PInt 0 \<and> t' ! 11 = PInt 0)))"
  unfolding item_tuple_def invoice_tuple_def build_Inr
  by (auto simp: bindE_Inr getitem_Inr int_or_Inr float_or_zero_Inr)

theorem quantity_defaults_to_one_witness:
  "(\<exists>t. item_tuple demo_env ''u3'' ''u2'' ''u1'' (demo_detail 10 1 (PInt 0) PNone) = Inr t \<and>
      t ! 6 = PInt 1 \<and> t ! 7 = PDec 0 \<and> t ! 9 = PDec 0) \<and>
   (\<exists>t. item_tuple demo_env ''u3'' ''u2'' ''u1'' (demo_detail 10 1 (PInt 4) (PInt 0)) = Inr t \<and>
      t ! 6 = PInt 4 \<and> t ! 7 = PDec 0) \<and>
   (\<exists>t. invoice_tuple demo_env ''u2'' ''u1'' (demo_txn 10 1 PNone PNone) = Inr t \<and>
      t ! 8 = PInt 0 \<and> t ! 11 = PInt 0)"
proof -
  have a: "\<exists>t. item_tuple demo_env ''u3'' ''u2'' ''u1'' (demo_detail 10 1 (PInt q) h) = Inr t"
    if "h = PNone \<or> h = PInt 0" for q h
    using that
    by (auto simp: item_tuple_def demo_detail_def demo_env_def getitem_def bindE_def int_or_def
        float_or_zero_def)
  have b: "\<exists>t. invoice_tuple demo_env ''u2'' ''u1'' (demo_txn 10 1 PNone PNone) = Inr t"
    by (simp add: invoice_tuple_def demo_txn_def getitem_def bindE_def int_or_def py_or_def)
  from a[of PNone 0] obtain t1 where
    t1: "item_tuple demo_env ''u3'' ''u2'' ''u1'' (demo_detail 10 1 (PInt 0) PNone) = Inr t1"
    by auto
  from a[of "PInt 0" 4] obtain t2 where
    t2: "item_tuple demo_env ''u3'' ''u2'' ''u1'' (demo_detail 10 1 (PInt 4) (PInt 0)) = Inr t2"
    by auto
  from b obtain t3 where
    t3: "invoice_tuple demo_env ''u2'' ''u1'' (demo_txn 10 1 PNone PNone) = Inr t3" ..
  show ?thesis
    using quantity_defaults_to_one[where E = demo_env and item_id = "''u3''" and inv_id = "''u2''"
        and prod_id = "''u1''" and detail = "demo_detail 10 1 (PInt 0) PNone" and t = t1
        and cust_id = "''u1''" and txn = "demo_txn 10 1 PNone PNone" and t' = t3]
      quantity_defaults_to_one[where E = demo_env and item_id = "''u3''" and inv_id = "''u2''"
        and prod_id = "''u1''" and detail = "demo_detail 10 1 (PInt 4) (PInt 0)" and t = t2
        and cust_id = "''u1''" and txn = "demo_txn 10 1 PNone PNone" and t' = t3]
      t1 t2 t3
    by (simp add: demo_detail_def demo_txn_def)
qed

text \<open>
  Claim C10. In the tuple of a migrated invoice the payment status (item 6) is the
  string \<open>paid\<close> exactly when the source field \<open>status_transaksi\<close> equals the string
  \<open>paid\<close>, and \<open>unpaid\<close> for every other value, NULL and other spellings included;
  the status (item 5) is always \<open>completed\<close>.
\<close>

theorem invoice_payment_status:
  assumes "invoice_tuple E inv_id cust_id txn = Inr t"
  shows "t ! 5 = PStr ''completed'' \<and>
    t ! 6 = PStr (if txn ''status_transaksi'' = Some (PStr ''paid'')
                  then ''paid'' else ''unpaid'') \<and>
    (t ! 6 = PStr ''paid'') = (txn ''status_transaksi'' = Some (PStr ''paid''))"
  using assms unfolding invoice_tuple_def build_Inr
  by (auto simp: bindE_Inr getitem_Inr)

theorem invoice_payment_status_witness:
  "(\<exists>t. invoice_tuple demo_env ''u2'' ''u1'' (demo_txn 10 1 (PStr ''paid'') (PInt 5000)) = Inr t \<and>
     t ! 5 = PStr ''completed'' \<and> t ! 6 = PStr ''paid'') \<and>
   (\<exists>t. invoice_tuple demo_env ''u2'' ''u1'' (demo_txn 10 1 (PStr ''PAID'') (PInt 5000)) = Inr t \<and>
     t ! 6 = PStr ''unpaid'') \<and>
   (\<exists>t. invoice_tuple demo_env ''u2'' ''u1'' (demo_txn 10 1 PNone (PInt 5000)) = Inr t \<and>
     t ! 6 = PStr ''unpaid'')"
proof -
  have a: "\<exists>t. invoice_tuple demo_env ''u2'' ''u1'' (demo_txn 10 1 st (PInt 5000)) = Inr t" for st
    by (simp add: invoice_tuple_def demo_txn_def demo_env_def getitem_def bindE_def int_or_def
        py_or_def)
  from a[of "PStr ''paid''"] obtain t1 where
    t1: "invoice_tuple demo_env ''u2'' ''u1'' (demo_txn 10 1 (PStr ''paid'') (PInt 5000)) = Inr t1" ..
  from a[of "PStr ''PAID''"] obtain t2 where
    t2: "invoice_tuple demo_env ''u2'' ''u1'' (demo_txn 10 1 (PStr ''PAID'') (PInt 5000)) = Inr t2" ..
  from a[of PNone] obtain t3 where
    t3: "invoice_tuple demo_env ''u2'' ''u1'' (demo_txn 10 1 PNone (PInt 5000)) = Inr t3" ..
  show ?thesis
    using invoice_payment_status[OF t1] invoice_payment_status[OF t2]
      invoice_payment_status[OF t3] t1 t2 t3
    by (simp add: demo_txn_def)
qed

end
